theory Spec2Isabelle
  imports Main
begin

section \<open>Shrink Ray: a shallow embedding of \<^verbatim>\<open>src/src/App.jsx\<close>\<close>

text \<open>
  The daily puzzle asks for a 6-, 5-, 4- and 3-letter word in turn, with three wrong
  guesses shared by the four stages. This theory embeds the pure functions of
  \<^verbatim>\<open>App.jsx\<close> (\<^verbatim>\<open>normalizeWord\<close>, \<^verbatim>\<open>normalizePuzzle\<close>,
  \<^verbatim>\<open>buildFeedback\<close>, \<^verbatim>\<open>createEmptyState\<close>, \<^verbatim>\<open>loadStoredState\<close>), the
  event handlers \<^verbatim>\<open>submitGuess\<close> and \<^verbatim>\<open>handleGameKey\<close> as functions on the
  React state cells, and the save effect as a function to the stored JSON value.

  Modelling decisions.
  \<^item> A JavaScript string is the list of its code units; the model covers ASCII
    strings, on which \<^verbatim>\<open>trim\<close> removes the six ASCII white-space characters and
    \<^verbatim>\<open>toUpperCase\<close> maps \<^verbatim>\<open>a-z\<close> to \<^verbatim>\<open>A-Z\<close>. The words of a puzzle and the
    letters the key handler accepts are ASCII.
  \<^item> \<^verbatim>\<open>undefined\<close> is \<open>None\<close>: \<open>nth_opt xs i\<close> is \<^verbatim>\<open>xs[i]\<close>, \<open>get_prop v k\<close>
    is \<^verbatim>\<open>v.k\<close>.
  \<^item> A thrown exception is \<open>Inl TypeError\<close>.
  \<^item> Counted \<^verbatim>\<open>for\<close> loops run over the list of their indices.
\<close>

subsection \<open>Constants\<close>

definition TARGET_LENGTHS :: "nat list" where
  "TARGET_LENGTHS = [6, 5, 4, 3]"

definition MAX_RETRIES :: int where
  "MAX_RETRIES = 3"

subsection \<open>JavaScript values\<close>

text \<open>
  The values \<^verbatim>\<open>JSON.parse\<close> returns. A number is an integer (\<^verbatim>\<open>Number.isInteger\<close>
  holds) or some other number; the program only asks of a number whether it is an
  integer, what integer it is, and whether it is truthy. An object is the association
  list of its own properties; the first pair of a key gives the property.
\<close>

datatype json =
    JNull
  | JBool bool
  | JInt int
  | JNonInt
  | JStr string
  | JArr "json list"
  | JObj "(string \<times> json) list"

datatype error = TypeError

definition nth_opt :: "'a list \<Rightarrow> nat \<Rightarrow> 'a option" where
  "nth_opt xs i = (if i < length xs then Some (xs ! i) else None)"

text \<open>Property read \<^verbatim>\<open>v.k\<close> for the property names the program uses: none of them
  is defined on arrays, strings, numbers or booleans.\<close>

fun get_prop :: "json \<Rightarrow> string \<Rightarrow> json option" where
  "get_prop (JObj kvs) k = map_of kvs k"
| "get_prop _ k = None"

text \<open>\<^verbatim>\<open>Boolean(v)\<close>, with \<^verbatim>\<open>undefined\<close> as \<open>None\<close>.\<close>

fun truthy :: "json option \<Rightarrow> bool" where
  "truthy None = False"
| "truthy (Some JNull) = False"
| "truthy (Some (JBool b)) = b"
| "truthy (Some (JInt n)) = (n \<noteq> 0)"
| "truthy (Some JNonInt) = True"
| "truthy (Some (JStr s)) = (s \<noteq> [])"
| "truthy (Some (JArr xs)) = True"
| "truthy (Some (JObj kvs)) = True"

subsection \<open>Strings\<close>

definition is_space :: "char \<Rightarrow> bool" where
  "is_space c = ((of_char c :: nat) \<in> {9, 10, 11, 12, 13, 32})"

definition is_upper :: "char \<Rightarrow> bool" where
  "is_upper c = (65 \<le> (of_char c :: nat) \<and> (of_char c :: nat) \<le> 90)"

definition is_lower :: "char \<Rightarrow> bool" where
  "is_lower c = (97 \<le> (of_char c :: nat) \<and> (of_char c :: nat) \<le> 122)"

definition is_digit :: "char \<Rightarrow> bool" where
  "is_digit c = (48 \<le> (of_char c :: nat) \<and> (of_char c :: nat) \<le> 57)"

definition trim :: "string \<Rightarrow> string" where
  "trim s = rev (dropWhile is_space (rev (dropWhile is_space s)))"

definition toUpperCase :: "string \<Rightarrow> string" where
  "toUpperCase s = map (\<lambda>c. if is_lower c then char_of ((of_char c :: nat) - 32) else c) s"

text \<open>The regular expression \<^verbatim>\<open>/^[A-Z]+$/\<close>.\<close>

definition matches_upper_word :: "string \<Rightarrow> bool" where
  "matches_upper_word s = (s \<noteq> [] \<and> list_all is_upper s)"

text \<open>The regular expression \<^verbatim>\<open>/^\d{4}-\d{2}-\d{2}$/\<close>.\<close>

definition matches_date :: "string \<Rightarrow> bool" where
  "matches_date s =
     (length s = 10 \<and> is_digit (s ! 0) \<and> is_digit (s ! 1) \<and> is_digit (s ! 2) \<and> is_digit (s ! 3)
      \<and> s ! 4 = CHR ''-'' \<and> is_digit (s ! 5) \<and> is_digit (s ! 6)
      \<and> s ! 7 = CHR ''-'' \<and> is_digit (s ! 8) \<and> is_digit (s ! 9))"

subsection \<open>normalizeWord\<close>

text \<open>
  \<^verbatim>\<open>normalizeWord(value, expectedLength)\<close>: the empty string is the invalid result.
  \<^verbatim>\<open>expectedLength\<close> is checked only when it is truthy, that is non-zero.
\<close>

fun normalizeWord :: "json option \<Rightarrow> nat \<Rightarrow> string" where
  "normalizeWord (Some (JStr v)) expectedLength =
     (let normalized = toUpperCase (trim v) in
      if \<not> matches_upper_word normalized then []
      else if expectedLength \<noteq> 0 \<and> length normalized \<noteq> expectedLength then []
      else normalized)"
| "normalizeWord _ expectedLength = []"

subsection \<open>buildFeedback\<close>

datatype letter_state = Correct | Present | Absent

text \<open>The \<^verbatim>\<open>Map\<close> of remaining counts, keyed by one-letter strings;
  \<^verbatim>\<open>remaining.get(k) ?? 0\<close> is \<open>remaining_get\<close>.\<close>

type_synonym tally = "char \<rightharpoonup> nat"

definition remaining_get :: "tally \<Rightarrow> char \<Rightarrow> nat" where
  "remaining_get remaining k = (case remaining k of None \<Rightarrow> 0 | Some n \<Rightarrow> n)"

text \<open>Body of the first loop at index \<open>i\<close>, which is below \<^verbatim>\<open>target.length\<close>, so
  that \<^verbatim>\<open>target[i]\<close> is a letter.\<close>

definition firstPass :: "string \<Rightarrow> string \<Rightarrow> nat \<Rightarrow> letter_state list \<times> tally \<Rightarrow> letter_state list \<times> tally" where
  "firstPass guess target i = (\<lambda>(states, remaining).
     if nth_opt guess i = nth_opt target i then (states[i := Correct], remaining)
     else (let count = remaining_get remaining (target ! i)
           in (states, remaining(target ! i \<mapsto> count + 1))))"

text \<open>Body of the second loop at index \<open>i\<close>. Beyond the guess \<^verbatim>\<open>guess[i]\<close> is
  \<^verbatim>\<open>undefined\<close>, a key the map never holds: the count read is 0 and nothing changes.\<close>

definition secondPass :: "string \<Rightarrow> nat \<Rightarrow> letter_state list \<times> tally \<Rightarrow> letter_state list \<times> tally" where
  "secondPass guess i = (\<lambda>(states, remaining).
     if states ! i = Correct then (states, remaining)
     else (case nth_opt guess i of
             None \<Rightarrow> (states, remaining)
           | Some letter \<Rightarrow>
               (let count = remaining_get remaining letter
                in if count > 0 then (states[i := Present], remaining(letter \<mapsto> count - 1))
                   else (states, remaining))))"

definition buildFeedback :: "string \<Rightarrow> string \<Rightarrow> letter_state list" where
  "buildFeedback guess target =
     (let states = replicate (length target) Absent;
          pass1 = fold (firstPass guess target) [0..<length target] (states, Map.empty);
          pass2 = fold (secondPass guess) [0..<length target] pass1
      in fst pass2)"

subsection \<open>Puzzle definitions: normalizePuzzle\<close>

record puzzle =
  date :: string
  startWord :: string
  targetWords :: "string list"

text \<open>\<^verbatim>\<open>Array.isArray(v)\<close> and \<^verbatim>\<open>typeof v === 'object'\<close> (which holds of
  \<^verbatim>\<open>null\<close> too).\<close>

fun isArray :: "json option \<Rightarrow> bool" where
  "isArray (Some (JArr xs)) = True"
| "isArray _ = False"

fun typeof_object :: "json option \<Rightarrow> bool" where
  "typeof_object (Some JNull) = True"
| "typeof_object (Some (JArr xs)) = True"
| "typeof_object (Some (JObj kvs)) = True"
| "typeof_object _ = False"

text \<open>\<^verbatim>\<open>entry.words[i]\<close> once \<^verbatim>\<open>entry.words\<close> is known to be an array.\<close>

fun array_index :: "json option \<Rightarrow> nat \<Rightarrow> json option" where
  "array_index (Some (JArr xs)) i = nth_opt xs i"
| "array_index _ i = None"

text \<open>\<^verbatim>\<open>targetWords.some((word) => !word)\<close>: some word is the empty string.\<close>

definition some_invalid :: "string list \<Rightarrow> bool" where
  "some_invalid ws = list_ex (\<lambda>word. word = []) ws"

definition normalizePuzzle :: "json \<Rightarrow> puzzle option" where
  "normalizePuzzle entry =
     (if \<not> truthy (Some entry) \<or> \<not> typeof_object (Some entry) then None
      else
        let date = (case get_prop entry ''date'' of Some (JStr d) \<Rightarrow> d | _ \<Rightarrow> []) in
        if \<not> matches_date date then None
        else
          let words = get_prop entry ''words'';
              solution = get_prop entry ''solution'';
              first = normalizeWord (get_prop entry ''startWord'') 7;
              startWord =
                (if first \<noteq> [] then first
                 else normalizeWord (if isArray words then array_index words 0 else Some (JStr [])) 7);
              fromSolution =
                (case solution of
                   None \<Rightarrow> []
                 | Some sol \<Rightarrow>
                     if truthy solution \<and> typeof_object solution
                     then [normalizeWord (get_prop sol ''six'') 6,
                           normalizeWord (get_prop sol ''five'') 5,
                           normalizeWord (get_prop sol ''four'') 4,
                           normalizeWord (get_prop sol ''three'') 3]
                     else []);
              targetWords =
                (if some_invalid fromSolution \<and> isArray words
                 then map (\<lambda>(len, index). normalizeWord (array_index words (index + 1)) len)
                        (zip TARGET_LENGTHS [0..<length TARGET_LENGTHS])
                 else fromSolution)
          in if startWord = [] \<or> some_invalid targetWords then None
             else Some \<lparr>date = date, startWord = startWord, targetWords = targetWords\<rparr>)"

text \<open>The catalog \<^verbatim>\<open>DAILY_PUZZLES\<close>: the entries that normalize, keyed by date; a later
  entry of the same date replaces an earlier one.\<close>

definition DAILY_PUZZLES :: "json list \<Rightarrow> (string \<rightharpoonup> puzzle)" where
  "DAILY_PUZZLES rawPuzzles =
     fold (\<lambda>entry m. m(date entry \<mapsto> entry))
       [entry. Some entry \<leftarrow> map normalizePuzzle rawPuzzles] Map.empty"

subsection \<open>Session state\<close>

record attempt =
  guess :: string
  feedback :: "letter_state list"

text \<open>The value \<^verbatim>\<open>loadStoredState\<close> returns; the component keeps its four fields in
  the state cells \<^verbatim>\<open>guesses\<close>, \<^verbatim>\<open>attemptsByStep\<close>, \<^verbatim>\<open>totalAttemptsUsed\<close> and
  \<^verbatim>\<open>isLockedOut\<close>.\<close>

record session =
  guesses :: "string list"
  attemptsByStep :: "attempt list list"
  totalAttempts :: int
  lockedOut :: bool

definition createEmptyAttemptsByStep :: "attempt list list" where
  "createEmptyAttemptsByStep = map (\<lambda>_. []) TARGET_LENGTHS"

definition createEmptyState :: session where
  "createEmptyState =
     \<lparr>guesses = [], attemptsByStep = createEmptyAttemptsByStep, totalAttempts = 0, lockedOut = False\<rparr>"

subsection \<open>loadStoredState\<close>

text \<open>
  What the first two statements of the \<^verbatim>\<open>try\<close> block find in the storage slot:
  \<open>NoItem\<close> when \<^verbatim>\<open>getItem\<close> returns \<^verbatim>\<open>null\<close> or the empty string, \<open>Unparsable\<close>
  when \<^verbatim>\<open>getItem\<close> or \<^verbatim>\<open>JSON.parse\<close> throws, \<open>Parsed v\<close> when the text parses
  to \<open>v\<close>.
\<close>

datatype storage = NoItem | Unparsable | Parsed json

text \<open>The loop that rebuilds \<^verbatim>\<open>validGuesses\<close>, over the steps still to visit.\<close>

fun validGuessesLoop :: "puzzle \<Rightarrow> json option \<Rightarrow> nat list \<Rightarrow> string list \<Rightarrow> string list" where
  "validGuessesLoop puzzle gs [] validGuesses = validGuesses"
| "validGuessesLoop puzzle gs (step # steps) validGuesses =
     (let guess = normalizeWord (array_index gs step) (TARGET_LENGTHS ! step) in
      if guess = [] \<or> Some guess \<noteq> nth_opt (targetWords puzzle) step then validGuesses
      else validGuessesLoop puzzle gs steps (validGuesses @ [guess]))"

text \<open>How a loop ends: by running out of elements, or by \<^verbatim>\<open>break\<close>.\<close>

datatype 'a loop_exit = Completed 'a | Broke 'a

text \<open>
  The loop \<^verbatim>\<open>for (const rawAttempt of ...)\<close>, the same in the current and the legacy
  shape, on the pair of \<^verbatim>\<open>attemptsByStep\<close> and \<^verbatim>\<open>totalAttempts\<close>. When the puzzle has
  no target word for the step, \<^verbatim>\<open>buildFeedback\<close> reads \<^verbatim>\<open>target.length\<close> of
  \<^verbatim>\<open>undefined\<close> and throws.
\<close>

fun attemptsLoop ::
  "string option \<Rightarrow> nat \<Rightarrow> json list \<Rightarrow> attempt list list \<times> int
    \<Rightarrow> error + (attempt list list \<times> int) loop_exit" where
  "attemptsLoop targetWord step [] st = Inr (Completed st)"
| "attemptsLoop targetWord step (rawAttempt # rest) (attempts, used) =
     (if used \<ge> MAX_RETRIES then Inr (Broke (attempts, used))
      else
        let attemptWord = normalizeWord (Some rawAttempt) (TARGET_LENGTHS ! step) in
        if attemptWord = [] \<or> Some attemptWord = targetWord
        then attemptsLoop targetWord step rest (attempts, used)
        else (case targetWord of
                None \<Rightarrow> Inl TypeError
              | Some target \<Rightarrow>
                  attemptsLoop targetWord step rest
                    (attempts[step := attempts ! step
                        @ [\<lparr>guess = attemptWord, feedback = buildFeedback attemptWord target\<rparr>]],
                     used + 1)))"

text \<open>The loop labelled \<^verbatim>\<open>outer\<close>, over the steps still to visit.\<close>

fun stepsLoop ::
  "puzzle \<Rightarrow> json option \<Rightarrow> nat list \<Rightarrow> attempt list list \<times> int
    \<Rightarrow> error + (attempt list list \<times> int)" where
  "stepsLoop puzzle rows [] st = Inr st"
| "stepsLoop puzzle rows (step # steps) st =
     (case array_index rows step of
        Some (JArr rowAttempts) \<Rightarrow>
          (case attemptsLoop (nth_opt (targetWords puzzle) step) step rowAttempts st of
             Inl e \<Rightarrow> Inl e
           | Inr (Broke st') \<Rightarrow> Inr st'
           | Inr (Completed st') \<Rightarrow> stepsLoop puzzle rows steps st')
      | _ \<Rightarrow> stepsLoop puzzle rows steps st)"

text \<open>\<^verbatim>\<open>Number.isInteger(v)\<close>, returning the integer.\<close>

fun integer_of :: "json option \<Rightarrow> int option" where
  "integer_of (Some (JInt n)) = Some n"
| "integer_of _ = None"

text \<open>The statements of the \<^verbatim>\<open>try\<close> block that rebuild \<^verbatim>\<open>attemptsByStep\<close> and
  count \<^verbatim>\<open>totalAttempts\<close>, from the current shape (a list of attempts for each step) or
  from the legacy shape (one list and the active step).\<close>

definition rebuildAttempts :: "puzzle \<Rightarrow> json \<Rightarrow> error + (attempt list list \<times> int)" where
  "rebuildAttempts puzzle parsed =
     (let start = (createEmptyAttemptsByStep, 0) in
      if isArray (get_prop parsed ''attemptsByStep'')
      then stepsLoop puzzle (get_prop parsed ''attemptsByStep'') [0..<length TARGET_LENGTHS] start
      else
        (case (get_prop parsed ''attempts'', integer_of (get_prop parsed ''activeStep'')) of
           (Some (JArr attempts), Some activeStep) \<Rightarrow>
             if activeStep \<ge> 0 \<and> activeStep < int (length TARGET_LENGTHS)
             then (case attemptsLoop (nth_opt (targetWords puzzle) (nat activeStep))
                          (nat activeStep) attempts start of
                     Inl e \<Rightarrow> Inl e
                   | Inr (Broke st) \<Rightarrow> Inr st
                   | Inr (Completed st) \<Rightarrow> Inr st)
             else Inr start
         | _ \<Rightarrow> Inr start))"

text \<open>The \<^verbatim>\<open>try\<close> block from the guard on \<^verbatim>\<open>parsed\<close> on.\<close>

definition restoreParsed :: "string \<Rightarrow> puzzle \<Rightarrow> json \<Rightarrow> error + session" where
  "restoreParsed dateString puzzle parsed =
     (if \<not> truthy (Some parsed)
         \<or> get_prop parsed ''date'' \<noteq> Some (JStr dateString)
         \<or> get_prop parsed ''startWord'' \<noteq> Some (JStr (startWord puzzle))
         \<or> \<not> isArray (get_prop parsed ''guesses'')
      then Inr createEmptyState
      else
        let validGuesses =
              validGuessesLoop puzzle (get_prop parsed ''guesses'') [0..<length TARGET_LENGTHS] []
        in case rebuildAttempts puzzle parsed of
             Inl e \<Rightarrow> Inl e
           | Inr (attempts, counted) \<Rightarrow>
               let reconciled = (case integer_of (get_prop parsed ''totalAttempts'') of
                              Some n \<Rightarrow> min MAX_RETRIES (max counted n)
                            | None \<Rightarrow> counted);
                   solved = (length validGuesses \<ge> length TARGET_LENGTHS);
                   locked = (if solved then False
                             else truthy (get_prop parsed ''lockedOut'')
                                  \<or> truthy (get_prop parsed ''failed'')
                                  \<or> reconciled \<ge> MAX_RETRIES)
               in Inr \<lparr>guesses = validGuesses, attemptsByStep = attempts,
                        totalAttempts = min MAX_RETRIES reconciled, lockedOut = locked\<rparr>)"

text \<open>The whole function: every exception ends in the \<^verbatim>\<open>catch\<close> clause.\<close>

definition loadStoredState :: "string \<Rightarrow> puzzle \<Rightarrow> storage \<Rightarrow> session" where
  "loadStoredState dateString puzzle item =
     (case item of
        NoItem \<Rightarrow> createEmptyState
      | Unparsable \<Rightarrow> createEmptyState
      | Parsed parsed \<Rightarrow>
          (case restoreParsed dateString puzzle parsed of
             Inl e \<Rightarrow> createEmptyState
           | Inr state \<Rightarrow> state))"

subsection \<open>The save effect\<close>

text \<open>
  The object the effect hands to \<^verbatim>\<open>JSON.stringify\<close> when a puzzle is active. On such
  an object (strings, integers, a boolean, arrays of strings) \<^verbatim>\<open>JSON.parse\<close> undoes
  \<^verbatim>\<open>JSON.stringify\<close>, so the next load finds \<open>Parsed (saved d p s)\<close> in the slot.
\<close>

definition saved :: "string \<Rightarrow> puzzle \<Rightarrow> session \<Rightarrow> json" where
  "saved currentDate puzzle s =
     JObj [(''date'', JStr currentDate),
           (''startWord'', JStr (startWord puzzle)),
           (''guesses'', JArr (map JStr (guesses s))),
           (''attemptsByStep'', JArr (map (\<lambda>row. JArr (map (\<lambda>attempt. JStr (guess attempt)) row))
                                       (attemptsByStep s))),
           (''totalAttempts'', JInt (totalAttempts s)),
           (''lockedOut'', JBool (lockedOut s))]"

subsection \<open>submitGuess and handleGameKey\<close>

datatype toast =
    NoPuzzleFound
  | AlreadySolved
  | LockedUntilTomorrow nat
  | EnterLetters nat
  | NotQuite int

text \<open>The values the component derives from its state at each render.\<close>

definition currentStep :: "session \<Rightarrow> nat" where
  "currentStep s = length (guesses s)"

definition isComplete :: "puzzle option \<Rightarrow> session \<Rightarrow> bool" where
  "isComplete puzzle s = (puzzle \<noteq> None \<and> currentStep s \<ge> length TARGET_LENGTHS)"

definition expectedLength :: "puzzle option \<Rightarrow> session \<Rightarrow> nat" where
  "expectedLength puzzle s =
     (if puzzle = None \<or> isComplete puzzle s then 0 else TARGET_LENGTHS ! currentStep s)"

definition targetWord :: "puzzle option \<Rightarrow> session \<Rightarrow> string option" where
  "targetWord puzzle s =
     (case puzzle of
        None \<Rightarrow> Some []
      | Some p \<Rightarrow> if isComplete puzzle s then Some [] else nth_opt (targetWords p) (currentStep s))"

definition finalScoreLength :: "session \<Rightarrow> nat" where
  "finalScoreLength s = (if guesses s \<noteq> [] then length (last (guesses s)) else 7)"

definition isInputLocked :: "puzzle option \<Rightarrow> session \<Rightarrow> bool" where
  "isInputLocked puzzle s = (puzzle = None \<or> isComplete puzzle s \<or> lockedOut s)"

text \<open>The updater handed to \<^verbatim>\<open>setAttemptsByStep\<close>. It throws when the row is missing
  or when \<^verbatim>\<open>buildFeedback\<close> is given \<^verbatim>\<open>undefined\<close> for the target.\<close>

definition recordAttempt ::
  "attempt list list \<Rightarrow> nat \<Rightarrow> string \<Rightarrow> string option \<Rightarrow> error + attempt list list" where
  "recordAttempt previous step g target =
     (if step \<ge> length previous then Inl TypeError
      else case target of
             None \<Rightarrow> Inl TypeError
           | Some t \<Rightarrow>
               Inr (previous[step := previous ! step @ [\<lparr>guess = g, feedback = buildFeedback g t\<rparr>]]))"

text \<open>\<^verbatim>\<open>submitGuess\<close> on the session and the input buffer; the result is the new
  session, the new buffer and the toast shown, if any.\<close>

definition submitGuess ::
  "puzzle option \<Rightarrow> session \<times> string \<Rightarrow> error + ((session \<times> string) \<times> toast option)" where
  "submitGuess puzzle = (\<lambda>(s, inputValue).
     if puzzle = None then Inr ((s, inputValue), Some NoPuzzleFound)
     else if isComplete puzzle s then Inr ((s, inputValue), Some AlreadySolved)
     else if lockedOut s
       then Inr ((s, inputValue), Some (LockedUntilTomorrow (finalScoreLength s)))
     else
       let g = toUpperCase (trim inputValue) in
       if length g \<noteq> expectedLength puzzle s
         then Inr ((s, inputValue), Some (EnterLetters (expectedLength puzzle s)))
       else if Some g = targetWord puzzle s
         then Inr ((s\<lparr>guesses := guesses s @ [g]\<rparr>, []), None)
       else
         let nextTotalAttempts = min MAX_RETRIES (totalAttempts s + 1) in
         case recordAttempt (attemptsByStep s) (currentStep s) g (targetWord puzzle s) of
           Inl e \<Rightarrow> Inl e
         | Inr next \<Rightarrow>
             let s' = s\<lparr>totalAttempts := nextTotalAttempts, attemptsByStep := next\<rparr> in
             if nextTotalAttempts \<ge> MAX_RETRIES
             then Inr ((s'\<lparr>lockedOut := True\<rparr>, []),
                       Some (LockedUntilTomorrow (finalScoreLength s)))
             else Inr ((s', []), Some (NotQuite (MAX_RETRIES - nextTotalAttempts))))"

text \<open>The regular expression \<^verbatim>\<open>/^[A-Z]$/\<close>.\<close>

definition matches_upper_letter :: "string \<Rightarrow> bool" where
  "matches_upper_letter key = (length key = 1 \<and> list_all is_upper key)"

definition handleGameKey ::
  "puzzle option \<Rightarrow> string \<Rightarrow> session \<times> string \<Rightarrow> error + ((session \<times> string) \<times> toast option)" where
  "handleGameKey puzzle key = (\<lambda>(s, inputValue).
     if isInputLocked puzzle s then Inr ((s, inputValue), None)
     else if key = ''ENTER'' then submitGuess puzzle (s, inputValue)
     else if key = ''BACKSPACE'' then Inr ((s, butlast inputValue), None)
     else if \<not> matches_upper_letter key then Inr ((s, inputValue), None)
     else if length inputValue \<ge> expectedLength puzzle s then Inr ((s, inputValue), None)
     else Inr ((s, inputValue @ key), None))"

subsection \<open>Reachable states\<close>

text \<open>
  The sessions the program produces for a date and its puzzle: what \<^verbatim>\<open>loadStoredState\<close>
  returns, whatever the storage slot holds, and what \<^verbatim>\<open>submitGuess\<close> makes of a
  produced session, whatever the input buffer holds.
\<close>

inductive produced :: "string \<Rightarrow> puzzle \<Rightarrow> session \<Rightarrow> bool" for d :: string and p :: puzzle where
  restored: "produced d p (loadStoredState d p item)"
| guessed: "produced d p s \<Longrightarrow> submitGuess (Some p) (s, inputValue) = Inr ((s', inputValue'), t)
            \<Longrightarrow> produced d p s'"

text \<open>
  The same sessions, told apart by the storage content they start from.
\<close>

inductive produced_from :: "string \<Rightarrow> puzzle \<Rightarrow> storage \<Rightarrow> session \<Rightarrow> bool"
  for d :: string and p :: puzzle and item :: storage where
  restored_from: "produced_from d p item (loadStoredState d p item)"
| guessed_from: "produced_from d p item s
      \<Longrightarrow> submitGuess (Some p) (s, inputValue) = Inr ((s', inputValue'), t)
      \<Longrightarrow> produced_from d p item s'"

text \<open>
  The states of the running component: the load effect sets the session from storage and
  empties the input buffer; after that the state changes through \<^verbatim>\<open>handleGameKey\<close>
  only, which the key handler and the on-screen keys call.
\<close>

inductive reachable :: "string \<Rightarrow> puzzle \<Rightarrow> session \<times> string \<Rightarrow> bool" for d :: string and p :: puzzle where
  loaded: "reachable d p (loadStoredState d p item, [])"
| key: "reachable d p st \<Longrightarrow> handleGameKey (Some p) k st = Inr (st', t) \<Longrightarrow> reachable d p st'"

subsection \<open>Running a sequence of keys\<close>

text \<open>The keys are handled one after the other; a throw ends the run.\<close>

fun pressKeys :: "puzzle option \<Rightarrow> session \<times> string \<Rightarrow> string list \<Rightarrow> error + (session \<times> string)" where
  "pressKeys puzzle st [] = Inr st"
| "pressKeys puzzle st (k # ks) =
     (case handleGameKey puzzle k st of
        Inl e \<Rightarrow> Inl e
      | Inr (st', t) \<Rightarrow> pressKeys puzzle st' ks)"

subsection \<open>Well-formed puzzles\<close>

text \<open>A puzzle definition as the data model has it: four target words, uppercase, of
  lengths 6, 5, 4 and 3.\<close>

definition wf_puzzle :: "puzzle \<Rightarrow> bool" where
  "wf_puzzle p = list_all2 (\<lambda>w n. matches_upper_word w \<and> length w = n) (targetWords p) TARGET_LENGTHS"

subsection \<open>Auxiliary notions for the proofs\<close>

text \<open>The two passes of \<^verbatim>\<open>buildFeedback\<close> after \<open>k\<close> iterations.\<close>

definition pass1 :: "string \<Rightarrow> string \<Rightarrow> nat \<Rightarrow> letter_state list \<times> tally" where
  "pass1 g t k = fold (firstPass g t) [0..<k] (replicate (length t) Absent, Map.empty)"

definition pass2 :: "string \<Rightarrow> string \<Rightarrow> nat \<Rightarrow> letter_state list \<times> tally" where
  "pass2 g t k = fold (secondPass g) [0..<k] (pass1 g t (length t))"

text \<open>The number of indices below \<open>k\<close> that satisfy \<open>P\<close>.\<close>

definition countp :: "(nat \<Rightarrow> bool) \<Rightarrow> nat \<Rightarrow> nat" where
  "countp P k = length (filter P [0..<k])"

text \<open>The state a loop ends in, however it ends.\<close>

fun exit_state :: "'a loop_exit \<Rightarrow> 'a" where
  "exit_state (Completed st) = st"
| "exit_state (Broke st) = st"

text \<open>The number of attempts in the four lists.\<close>

definition attempts_count :: "attempt list list \<Rightarrow> int" where
  "attempts_count rows = int (sum_list (map length rows))"

text \<open>An attempt as \<^verbatim>\<open>loadStoredState\<close> and a typed wrong guess make it: an uppercase
  word of the length of its stage, other than the target, with the feedback of
  \<^verbatim>\<open>buildFeedback\<close>.\<close>

definition valid_attempt :: "nat \<Rightarrow> string option \<Rightarrow> attempt \<Rightarrow> bool" where
  "valid_attempt n target a =
     (case target of
        None \<Rightarrow> False
      | Some t \<Rightarrow> matches_upper_word (guess a) \<and> length (guess a) = n \<and> guess a \<noteq> t
                  \<and> feedback a = buildFeedback (guess a) t)"

text \<open>Four lists of valid attempts.\<close>

definition attempts_ok :: "puzzle \<Rightarrow> attempt list list \<Rightarrow> bool" where
  "attempts_ok p rows =
     (length rows = length TARGET_LENGTHS
      \<and> (\<forall>s < length rows. \<forall>a \<in> set (rows ! s).
            valid_attempt (TARGET_LENGTHS ! s) (nth_opt (targetWords p) s) a))"

text \<open>The invariant of the loops that rebuild the attempts: the counter is the number of
  attempts pushed, and never exceeds \<^verbatim>\<open>MAX_RETRIES\<close>.\<close>

definition rebuilt_ok :: "puzzle \<Rightarrow> attempt list list \<times> int \<Rightarrow> bool" where
  "rebuilt_ok p = (\<lambda>(rows, used). attempts_ok p rows \<and> used = attempts_count rows \<and> used \<le> MAX_RETRIES)"

text \<open>The stored record passes the guard of \<^verbatim>\<open>loadStoredState\<close>.\<close>

definition accepted :: "string \<Rightarrow> puzzle \<Rightarrow> json \<Rightarrow> bool" where
  "accepted d p parsed =
     (truthy (Some parsed)
      \<and> get_prop parsed ''date'' = Some (JStr d)
      \<and> get_prop parsed ''startWord'' = Some (JStr (startWord p))
      \<and> isArray (get_prop parsed ''guesses''))"

text \<open>The session \<^verbatim>\<open>loadStoredState\<close> returns for an accepted record, given the attempts
  rebuilt and their number.\<close>

definition restoredSession :: "puzzle \<Rightarrow> json \<Rightarrow> attempt list list \<Rightarrow> int \<Rightarrow> session" where
  "restoredSession p parsed rows counted =
     (let validGuesses = validGuessesLoop p (get_prop parsed ''guesses'') [0..<length TARGET_LENGTHS] [];
          reconciled = (case integer_of (get_prop parsed ''totalAttempts'') of
                          Some n \<Rightarrow> min MAX_RETRIES (max counted n)
                        | None \<Rightarrow> counted)
      in \<lparr>guesses = validGuesses, attemptsByStep = rows,
          totalAttempts = min MAX_RETRIES reconciled,
          lockedOut = (length validGuesses < length TARGET_LENGTHS
                       \<and> (truthy (get_prop parsed ''lockedOut'') \<or> truthy (get_prop parsed ''failed'')
                           \<or> reconciled \<ge> MAX_RETRIES))\<rparr>)"

text \<open>The storage content holds a record that \<^verbatim>\<open>loadStoredState\<close> accepts and rebuilds
  without a throw, and whose \<^verbatim>\<open>lockedOut\<close> or \<^verbatim>\<open>failed\<close> field is truthy.\<close>

definition stored_lock_flag :: "string \<Rightarrow> puzzle \<Rightarrow> storage \<Rightarrow> bool" where
  "stored_lock_flag d p item =
     (case item of
        Parsed parsed \<Rightarrow>
          accepted d p parsed
          \<and> (case restoreParsed d p parsed of Inl e \<Rightarrow> False | Inr s \<Rightarrow> True)
          \<and> (truthy (get_prop parsed ''lockedOut'') \<or> truthy (get_prop parsed ''failed''))
      | _ \<Rightarrow> False)"

text \<open>No attempt of a stage guesses the target of that stage.\<close>

definition no_target :: "puzzle \<Rightarrow> attempt list list \<Rightarrow> bool" where
  "no_target p rows =
     (\<forall>stage < length rows. \<forall>a \<in> set (rows ! stage). nth_opt (targetWords p) stage \<noteq> Some (guess a))"

text \<open>Solved guesses as \<^verbatim>\<open>loadStoredState\<close> and a typed right guess make them: uppercase
  words of the lengths of their stages.\<close>

definition guesses_ok :: "string list \<Rightarrow> bool" where
  "guesses_ok ws =
     (\<forall>i < length ws. matches_upper_word (ws ! i) \<and> length (ws ! i) = TARGET_LENGTHS ! i)"

text \<open>The invariant of the reachable sessions: the solved guesses are the first target
  words and are well formed, the attempts are valid, the attempts used are at least the attempts recorded and at
  most \<^verbatim>\<open>MAX_RETRIES\<close>, a locked session is unsolved, and an unsolved session with
  all attempts used is locked.\<close>

definition session_inv :: "puzzle \<Rightarrow> session \<Rightarrow> bool" where
  "session_inv p s =
     (length (guesses s) \<le> length TARGET_LENGTHS
      \<and> guesses s = take (length (guesses s)) (targetWords p)
      \<and> guesses_ok (guesses s)
      \<and> attempts_ok p (attemptsByStep s)
      \<and> attempts_count (attemptsByStep s) \<le> totalAttempts s
      \<and> totalAttempts s \<le> MAX_RETRIES
      \<and> (lockedOut s \<longrightarrow> length (guesses s) < length TARGET_LENGTHS)
      \<and> (totalAttempts s = MAX_RETRIES \<and> length (guesses s) < length TARGET_LENGTHS \<longrightarrow> lockedOut s))"

subsection \<open>Example values\<close>

definition planetsPuzzle :: puzzle where
  "planetsPuzzle = \<lparr>date = ''2024-01-01'', startWord = ''PLANETS'', targetWords = [''PLANET'', ''PLANE'', ''PLAN'', ''PAN'']\<rparr>"

definition noTargetsPuzzle :: puzzle where
  "noTargetsPuzzle = \<lparr>date = ''2024-01-01'', startWord = ''PLANETS'', targetWords = []\<rparr>"

definition legacyOnlyEntry :: json where
  "legacyOnlyEntry = JObj [(''date'', JStr ''2024-01-01''),
      (''words'', JArr [JStr ''PLANETS'', JStr ''PLANET'', JStr ''PLANE'', JStr ''PLAN'', JStr ''PAN''])]"

definition bothEntry :: json where
  "bothEntry = JObj [(''date'', JStr ''2024-01-01''),
      (''solution'', JObj [(''six'', JStr ''PLANET''), (''five'', JStr ''PLANE''),
                           (''four'', JStr ''PLAN''), (''three'', JStr ''PAN'')]),
      (''words'', JArr [JStr ''PLANETS'', JStr ''PLANTS'', JStr ''PLANT'', JStr ''PLAT'', JStr ''PAT''])]"

definition partialEntry :: json where
  "partialEntry = JObj [(''date'', JStr ''2024-01-01''),
      (''solution'', JObj [(''six'', JStr ''PLANET'')]),
      (''words'', JArr [JStr ''PLANETS'', JStr ''PLANTS'', JStr ''PLANT'', JStr ''PLAT'', JStr ''PAT''])]"

definition otherDayRecord :: json where
  "otherDayRecord = JObj [(''date'', JStr ''2023-12-31''), (''startWord'', JStr ''PLANETS''),
      (''guesses'', JArr [JStr ''PLANET'']), (''totalAttempts'', JInt 2)]"

definition otherWordRecord :: json where
  "otherWordRecord = JObj [(''date'', JStr ''2024-01-01''), (''startWord'', JStr ''PLANTED''),
      (''guesses'', JArr [JStr ''PLANET'']), (''totalAttempts'', JInt 2)]"

definition throwingRecord :: json where
  "throwingRecord = JObj [(''date'', JStr ''2024-01-01''), (''startWord'', JStr ''PLANETS''),
      (''guesses'', JArr []), (''attemptsByStep'', JArr [JArr [JStr ''PLANED'']])]"

definition tamperedRecord :: json where
  "tamperedRecord = JObj [(''date'', JStr ''2024-01-01''), (''startWord'', JStr ''PLANETS''),
      (''guesses'', JArr [JStr ''PLANET'']),
      (''attemptsByStep'', JArr [JArr [JStr ''PLANED'', JStr ''PLANET''],
                                 JArr [JStr ''PLANT'', JStr ''PLANE'', JStr ''plans'', JStr ''PLANK'']]),
      (''totalAttempts'', JInt 1)]"

definition flaggedRecord :: json where
  "flaggedRecord = JObj [(''date'', JStr ''2024-01-01''), (''startWord'', JStr ''PLANETS''),
      (''guesses'', JArr []), (''lockedOut'', JBool True)]"

definition solvedFlaggedRecord :: json where
  "solvedFlaggedRecord = JObj [(''date'', JStr ''2024-01-01''), (''startWord'', JStr ''PLANETS''),
      (''guesses'', JArr [JStr ''PLANET'', JStr ''PLANE'', JStr ''PLAN'', JStr ''PAN'']),
      (''totalAttempts'', JInt 3), (''lockedOut'', JBool True)]"

definition noGuessesRecord :: json where
  "noGuessesRecord = JObj [(''date'', JStr ''2024-01-01''), (''startWord'', JStr ''PLANETS''),
      (''totalAttempts'', JInt 2)]"

definition twoWrongState :: session where
  "twoWrongState =
     \<lparr>guesses = [''PLANET''],
      attemptsByStep = [[\<lparr>guess = ''PLANED'', feedback = buildFeedback ''PLANED'' ''PLANET''\<rparr>],
                        [\<lparr>guess = ''PLANT'', feedback = buildFeedback ''PLANT'' ''PLANE''\<rparr>], [], []],
      totalAttempts = 2, lockedOut = False\<rparr>"

definition firstWrongState :: session where
  "firstWrongState =
     \<lparr>guesses = [],
      attemptsByStep = [[\<lparr>guess = ''PLANED'', feedback = buildFeedback ''PLANED'' ''PLANET''\<rparr>],
                        [], [], []],
      totalAttempts = 1, lockedOut = False\<rparr>"

definition oneWrongState :: session where
  "oneWrongState =
     \<lparr>guesses = [''PLANET''],
      attemptsByStep = [[], [\<lparr>guess = ''PLANT'', feedback = buildFeedback ''PLANT'' ''PLANE''\<rparr>], [], []],
      totalAttempts = 1, lockedOut = False\<rparr>"

section \<open>Properties\<close>

subsection \<open>Properties of buildFeedback\<close>

lemma buildFeedback_example:
  "buildFeedback ''PLANED'' ''PLANET'' = [Correct, Correct, Correct, Correct, Correct, Absent]"
  by (simp add: buildFeedback_def firstPass_def secondPass_def nth_opt_def remaining_get_def
      upt_conv_Cons)

lemma pass1_0: "pass1 g t 0 = (replicate (length t) Absent, Map.empty)"
  by (simp add: pass1_def)

lemma pass1_Suc: "pass1 g t (Suc k) = firstPass g t k (pass1 g t k)"
  by (simp add: pass1_def)

lemma pass2_0: "pass2 g t 0 = pass1 g t (length t)"
  by (simp add: pass2_def)

lemma pass2_Suc: "pass2 g t (Suc k) = secondPass g k (pass2 g t k)"
  by (simp add: pass2_def)

lemma buildFeedback_pass2: "buildFeedback g t = fst (pass2 g t (length t))"
  by (simp add: buildFeedback_def pass2_def pass1_def Let_def)

lemma countp_0: "countp P 0 = 0"
  by (simp add: countp_def)

lemma countp_Suc: "countp P (Suc k) = countp P k + (if P k then 1 else 0)"
  by (simp add: countp_def)

lemma pass1_length: "length (fst (pass1 g t k)) = length t"
  by (induction k) (simp_all add: pass1_0 pass1_Suc firstPass_def split_beta Let_def)

lemma pass1_nth:
  "i < length t \<Longrightarrow> fst (pass1 g t k) ! i =
     (if i < k \<and> nth_opt g i = nth_opt t i then Correct else Absent)"
proof (induction k)
  case 0
  then show ?case by (simp add: pass1_0)
next
  case (Suc k)
  have len: "length (fst (pass1 g t k)) = length t" by (rule pass1_length)
  show ?case
  proof (cases "nth_opt g k = nth_opt t k")
    case True
    then show ?thesis using Suc len
      by (cases "i = k") (auto simp: pass1_Suc firstPass_def split_beta less_Suc_eq)
  next
    case False
    then show ?thesis using Suc len
      by (auto simp: pass1_Suc firstPass_def split_beta Let_def less_Suc_eq)
  qed
qed

lemma pass1_tally:
  "k \<le> length t \<Longrightarrow> remaining_get (snd (pass1 g t k)) c =
     countp (\<lambda>i. t ! i = c \<and> nth_opt g i \<noteq> nth_opt t i) k"
proof (induction k)
  case 0
  then show ?case by (simp add: pass1_0 countp_0 remaining_get_def)
next
  case (Suc k)
  then show ?case
    by (auto simp: pass1_Suc firstPass_def split_beta Let_def countp_Suc remaining_get_def)
qed

lemma countp_cong: "(\<And>i. i < k \<Longrightarrow> P i = Q i) \<Longrightarrow> countp P k = countp Q k"
  by (induction k) (simp_all add: countp_0 countp_Suc)

lemma countp_or_le: "countp (\<lambda>i. P i \<or> Q i) k \<le> countp P k + countp Q k"
  by (induction k) (simp_all add: countp_0 countp_Suc)

lemma countp_split: "countp (\<lambda>i. P i \<and> Q i) k + countp (\<lambda>i. P i \<and> \<not> Q i) k = countp P k"
  by (induction k) (simp_all add: countp_0 countp_Suc)

lemma count_list_countp: "count_list t c = countp (\<lambda>i. t ! i = c) (length t)"
proof (induction t rule: rev_induct)
  case Nil
  then show ?case by (simp add: countp_0)
next
  case (snoc x xs)
  have "countp (\<lambda>i. (xs @ [x]) ! i = c) (length xs) = countp (\<lambda>i. xs ! i = c) (length xs)"
    by (rule countp_cong) (simp add: nth_append)
  with snoc show ?case by (simp add: countp_Suc)
qed

lemma pass2_length: "length (fst (pass2 g t k)) = length t"
  by (induction k)
    (simp_all add: pass2_0 pass2_Suc pass1_length secondPass_def split_beta Let_def split: option.splits)

lemma pass2_untouched:
  "k \<le> i \<Longrightarrow> fst (pass2 g t k) ! i = fst (pass1 g t (length t)) ! i"
  by (induction k)
    (simp_all add: pass2_0 pass2_Suc secondPass_def split_beta Let_def split: option.splits)

lemma pass2_correct:
  "i < length t \<Longrightarrow> (fst (pass2 g t k) ! i = Correct) = (nth_opt g i = nth_opt t i)"
proof (induction k)
  case 0
  then show ?case by (simp add: pass2_0 pass1_nth)
next
  case (Suc k)
  have len: "length (fst (pass2 g t k)) = length t" by (rule pass2_length)
  show ?case using Suc len
    by (cases "i = k")
      (auto simp: pass2_Suc secondPass_def split_beta Let_def split: option.splits)
qed

lemma pass2_beyond:
  "i < length t \<Longrightarrow> length g \<le> i \<Longrightarrow> fst (pass2 g t k) ! i = Absent"
proof (induction k)
  case 0
  then show ?case by (simp add: pass2_0 pass1_nth nth_opt_def)
next
  case (Suc k)
  have len: "length (fst (pass2 g t k)) = length t" by (rule pass2_length)
  show ?case using Suc len
    by (cases "i = k")
      (auto simp: pass2_Suc secondPass_def split_beta Let_def nth_opt_def split: option.splits)
qed

lemma pass2_not_present:
  "k < length t \<Longrightarrow> fst (pass2 g t k) ! k \<noteq> Present"
  by (simp add: pass2_untouched pass1_nth)

lemma pass2_tally:
  "k \<le> length t \<Longrightarrow>
     countp (\<lambda>i. fst (pass2 g t k) ! i = Present \<and> g ! i = c) k
       + remaining_get (snd (pass2 g t k)) c
     = remaining_get (snd (pass1 g t (length t))) c"
proof (induction k)
  case 0
  then show ?case by (simp add: pass2_0 countp_0)
next
  case (Suc k)
  let ?st = "fst (pass2 g t k)" and ?rem = "snd (pass2 g t k)"
  have k: "k < length t" using Suc.prems by simp
  have len: "length ?st = length t" by (rule pass2_length)
  have np: "?st ! k \<noteq> Present" using k by (rule pass2_not_present)
  have IH: "countp (\<lambda>i. ?st ! i = Present \<and> g ! i = c) k + remaining_get ?rem c
      = remaining_get (snd (pass1 g t (length t))) c"
    using Suc by simp
  show ?case
  proof (cases "?st ! k \<noteq> Correct \<and> k < length g \<and> remaining_get ?rem (g ! k) > 0")
    case False
    then have same: "pass2 g t (Suc k) = pass2 g t k"
      by (auto simp: pass2_Suc secondPass_def split_beta Let_def nth_opt_def)
    show ?thesis using IH np by (simp add: same countp_Suc)
  next
    case True
    then have upd: "pass2 g t (Suc k) =
        (?st[k := Present], ?rem(g ! k \<mapsto> remaining_get ?rem (g ! k) - 1))"
      by (simp add: pass2_Suc secondPass_def split_beta Let_def nth_opt_def)
    have below: "countp (\<lambda>i. ?st[k := Present] ! i = Present \<and> g ! i = c) k
        = countp (\<lambda>i. ?st ! i = Present \<and> g ! i = c) k"
      by (rule countp_cong) simp
    show ?thesis using IH True k len
      by (auto simp: upd countp_Suc below remaining_get_def)
  qed
qed

text \<open>
  Claim C1. For a guess and a target of equal length (uppercase words in particular),
  \<^verbatim>\<open>buildFeedback\<close> returns a sequence of that length; position \<open>i\<close> is marked correct
  exactly when the two letters at \<open>i\<close> agree; and for every letter \<open>c\<close> the positions
  whose guess letter is \<open>c\<close> and whose mark is present or correct are at most as many as
  the occurrences of \<open>c\<close> in the target.
\<close>

theorem buildFeedback_equal_length:
  assumes "length g = length t"
  shows "length (buildFeedback g t) = length t
    \<and> (\<forall>i < length t. (buildFeedback g t ! i = Correct) = (g ! i = t ! i))
    \<and> (\<forall>c. length (filter (\<lambda>i. g ! i = c \<and> (buildFeedback g t ! i = Present \<or> buildFeedback g t ! i = Correct))
                [0..<length g])
            \<le> count_list t c)"
proof (intro conjI allI impI)
  show "length (buildFeedback g t) = length t"
    by (simp add: buildFeedback_pass2 pass2_length)
next
  fix i assume "i < length t"
  then show "(buildFeedback g t ! i = Correct) = (g ! i = t ! i)"
    using assms by (simp add: buildFeedback_pass2 pass2_correct nth_opt_def)
next
  fix c
  let ?n = "length t"
  let ?fb = "buildFeedback g t"
  have "countp (\<lambda>i. g ! i = c \<and> (?fb ! i = Present \<or> ?fb ! i = Correct)) ?n
      = countp (\<lambda>i. (?fb ! i = Present \<and> g ! i = c) \<or> (t ! i = c \<and> nth_opt g i = nth_opt t i)) ?n"
    by (rule countp_cong) (use assms in \<open>auto simp: buildFeedback_pass2 pass2_correct nth_opt_def\<close>)
  also have "\<dots> \<le> countp (\<lambda>i. ?fb ! i = Present \<and> g ! i = c) ?n
      + countp (\<lambda>i. t ! i = c \<and> nth_opt g i = nth_opt t i) ?n"
    by (rule countp_or_le)
  also have "countp (\<lambda>i. ?fb ! i = Present \<and> g ! i = c) ?n
      \<le> countp (\<lambda>i. t ! i = c \<and> nth_opt g i \<noteq> nth_opt t i) ?n"
    using pass2_tally [of ?n t g c] by (simp add: buildFeedback_pass2 pass1_tally)
  also have "countp (\<lambda>i. t ! i = c \<and> nth_opt g i \<noteq> nth_opt t i) ?n
      + countp (\<lambda>i. t ! i = c \<and> nth_opt g i = nth_opt t i) ?n = countp (\<lambda>i. t ! i = c) ?n"
    using countp_split [of "\<lambda>i. t ! i = c" "\<lambda>i. nth_opt g i = nth_opt t i" ?n] by simp
  finally show "length (filter (\<lambda>i. g ! i = c \<and> (?fb ! i = Present \<or> ?fb ! i = Correct)) [0..<length g])
      \<le> count_list t c"
    using assms by (simp add: count_list_countp countp_def)
qed

theorem buildFeedback_equal_length_witness:
  "length ''SPEED'' = length ''ERASE''
   \<and> length (buildFeedback ''SPEED'' ''ERASE'') = length ''ERASE''
   \<and> (buildFeedback ''SPEED'' ''ERASE'' ! 2 = Correct) = (''SPEED'' ! 2 = ''ERASE'' ! 2)
   \<and> length (filter (\<lambda>i. ''SPEED'' ! i = CHR ''E''
          \<and> (buildFeedback ''SPEED'' ''ERASE'' ! i = Present \<or> buildFeedback ''SPEED'' ''ERASE'' ! i = Correct))
        [0..<length ''SPEED'']) \<le> count_list ''ERASE'' CHR ''E''"
proof -
  have h: "length ''SPEED'' = length ''ERASE''" by simp
  have two: "(2::nat) < length ''ERASE''" by simp
  show ?thesis
    using h two buildFeedback_equal_length [OF h] by blast
qed

text \<open>
  Claim C10. \<^verbatim>\<open>buildFeedback\<close> is total on strings of any lengths: the result is as long
  as the target, and every position at or beyond the end of the guess is marked absent.
\<close>

theorem buildFeedback_total:
  "length (buildFeedback g t) = length t
   \<and> (\<forall>i. length g \<le> i \<and> i < length t \<longrightarrow> buildFeedback g t ! i = Absent)"
  by (simp add: buildFeedback_pass2 pass2_length pass2_beyond)

theorem buildFeedback_total_witness:
  "length (buildFeedback ''SP'' ''ERASE'') = length ''ERASE''
   \<and> (length ''SP'' \<le> 3 \<and> 3 < length ''ERASE'')
   \<and> buildFeedback ''SP'' ''ERASE'' ! 3 = Absent"
  using buildFeedback_total [of "''SP''" "''ERASE''"] by simp

subsection \<open>Words\<close>

lemma upper_not_space: "is_upper c \<Longrightarrow> \<not> is_space c"
  by (auto simp: is_upper_def is_space_def)

lemma upper_not_lower: "is_upper c \<Longrightarrow> \<not> is_lower c"
  by (auto simp: is_upper_def is_lower_def)

lemma trim_upper: "list_all is_upper w \<Longrightarrow> trim w = w"
proof -
  assume a: "list_all is_upper w"
  have 1: "dropWhile is_space w = w"
    using a by (cases w) (auto simp: upper_not_space)
  have "list_all is_upper (rev w)" using a by (simp add: list_all_iff)
  then have 2: "dropWhile is_space (rev w) = rev w"
    by (cases "rev w") (auto simp: upper_not_space)
  show ?thesis by (simp add: trim_def 1 2)
qed

lemma toUpperCase_upper: "list_all is_upper w \<Longrightarrow> toUpperCase w = w"
  by (induction w) (auto simp: toUpperCase_def upper_not_lower)

lemma normalizeWord_fixed:
  "matches_upper_word w \<Longrightarrow> length w = n \<Longrightarrow> normalizeWord (Some (JStr w)) n = w"
  by (simp add: matches_upper_word_def trim_upper toUpperCase_upper)

lemma normalizeWord_valid:
  "normalizeWord v n \<noteq> [] \<Longrightarrow> matches_upper_word (normalizeWord v n) \<and> (n \<noteq> 0 \<longrightarrow> length (normalizeWord v n) = n)"
  by (cases "(v, n)" rule: normalizeWord.cases) (auto simp: Let_def split: if_splits)

lemma wf_planetsPuzzle: "wf_puzzle planetsPuzzle"
  by (simp add: wf_puzzle_def planetsPuzzle_def TARGET_LENGTHS_def matches_upper_word_def is_upper_def)

subsection \<open>normalizePuzzle\<close>

lemma get_prop_Some_object: "get_prop entry k = Some v \<Longrightarrow> \<exists>kvs. entry = JObj kvs"
  by (cases entry) simp_all

lemma some_invalid_simps:
  "some_invalid [] = False" "some_invalid (w # ws) = (w = [] \<or> some_invalid ws)"
  by (simp_all add: some_invalid_def)

lemma legacy_map:
  "map (\<lambda>(len, index). normalizeWord (array_index (Some (JArr ws)) (index + 1)) len)
      (zip TARGET_LENGTHS [0..<length TARGET_LENGTHS])
   = [normalizeWord (nth_opt ws 1) 6, normalizeWord (nth_opt ws 2) 5,
      normalizeWord (nth_opt ws 3) 4, normalizeWord (nth_opt ws 4) 3]"
  by (simp add: TARGET_LENGTHS_def upt_conv_Cons eval_nat_numeral)

text \<open>
  Claim C5, as amended. Take a raw entry with a date of the form YYYY-MM-DD, a legacy
  \<^verbatim>\<open>words\<close> list whose element 0 normalizes to a 7-letter word and whose elements 1 to 4
  normalize to words of lengths 6, 5, 4 and 3, and a solution object. Then
  \<^verbatim>\<open>normalizePuzzle\<close> produces a definition for that date with four target words of
  lengths 6, 5, 4 and 3: the normalized legacy elements when one of the solution's fields
  \<^verbatim>\<open>six\<close>, \<^verbatim>\<open>five\<close>, \<^verbatim>\<open>four\<close>, \<^verbatim>\<open>three\<close> is missing or invalid, and the solution's
  own four words when all of them are valid.
\<close>

theorem normalizePuzzle_legacy_fallback:
  assumes d: "get_prop entry ''date'' = Some (JStr d)" "matches_date d"
    and ws: "get_prop entry ''words'' = Some (JArr ws)"
    and w0: "normalizeWord (nth_opt ws 0) 7 \<noteq> []"
    and legacy: "legacy = [normalizeWord (nth_opt ws 1) 6, normalizeWord (nth_opt ws 2) 5,
                    normalizeWord (nth_opt ws 3) 4, normalizeWord (nth_opt ws 4) 3]"
      "\<not> some_invalid legacy"
    and sol: "get_prop entry ''solution'' = Some sol" "truthy (Some sol)" "typeof_object (Some sol)"
    and fromSol: "fromSol = [normalizeWord (get_prop sol ''six'') 6, normalizeWord (get_prop sol ''five'') 5,
                    normalizeWord (get_prop sol ''four'') 4, normalizeWord (get_prop sol ''three'') 3]"
  shows "\<exists>p. normalizePuzzle entry = Some p \<and> date p = d
           \<and> targetWords p = (if some_invalid fromSol then legacy else fromSol)
           \<and> map length (targetWords p) = TARGET_LENGTHS
           \<and> list_all matches_upper_word (targetWords p)"
proof -
  obtain kvs where e: "entry = JObj kvs" using d(1) get_prop_Some_object by blast
  let ?first = "normalizeWord (get_prop entry ''startWord'') 7"
  let ?start = "if ?first \<noteq> [] then ?first else normalizeWord (nth_opt ws 0) 7"
  let ?targets = "if some_invalid fromSol then legacy else fromSol"
  have start: "?start \<noteq> []" using w0 by simp
  have valid: "\<not> some_invalid ?targets" using legacy(2) by simp
  have np: "normalizePuzzle entry = Some \<lparr>date = d, startWord = ?start, targetWords = ?targets\<rparr>"
    unfolding normalizePuzzle_def Let_def ws legacy_map legacy(1) [symmetric]
    using d sol w0 legacy(2)
    by (simp add: e fromSol [symmetric])
  have len: "map length ?targets = TARGET_LENGTHS"
    using valid normalizeWord_valid
    by (auto simp: legacy(1) fromSol some_invalid_simps TARGET_LENGTHS_def split: if_splits)
  have up: "list_all matches_upper_word ?targets"
    using valid normalizeWord_valid
    by (auto simp: legacy(1) fromSol some_invalid_simps split: if_splits)
  show ?thesis using np len up by simp
qed

text \<open>
  An entry with the legacy list and no solution object at all: the list of target words
  starts empty, \<^verbatim>\<open>[].some(...)\<close> is false, so the legacy list is never consulted and
  the definition returned has no target word.
\<close>

lemma normalizePuzzle_without_solution:
  "normalizePuzzle legacyOnlyEntry
     = Some \<lparr>date = ''2024-01-01'', startWord = ''PLANETS'', targetWords = []\<rparr>"
  by (simp add: legacyOnlyEntry_def normalizePuzzle_def Let_def matches_date_def is_digit_def
      some_invalid_def nth_opt_def matches_upper_word_def is_upper_def is_lower_def is_space_def
      trim_def toUpperCase_def)

lemmas string_defs = matches_date_def is_digit_def matches_upper_word_def is_upper_def
  is_lower_def is_space_def trim_def toUpperCase_def

text \<open>
  Claim C5 as stated fails for an entry whose solution object is valid and whose legacy
  list holds other valid words: the solution's words are the targets, not the legacy ones.
\<close>

theorem normalizePuzzle_legacy_counterexample:
  "matches_date ''2024-01-01''
   \<and> get_prop bothEntry ''words''
       = Some (JArr [JStr ''PLANETS'', JStr ''PLANTS'', JStr ''PLANT'', JStr ''PLAT'', JStr ''PAT''])
   \<and> normalizeWord (Some (JStr ''PLANETS'')) 7 = ''PLANETS''
   \<and> normalizeWord (Some (JStr ''PLANTS'')) 6 = ''PLANTS''
   \<and> normalizeWord (Some (JStr ''PLANT'')) 5 = ''PLANT''
   \<and> normalizeWord (Some (JStr ''PLAT'')) 4 = ''PLAT''
   \<and> normalizeWord (Some (JStr ''PAT'')) 3 = ''PAT''
   \<and> map_option targetWords (normalizePuzzle bothEntry) \<noteq> Some [''PLANTS'', ''PLANT'', ''PLAT'', ''PAT'']"
  by (simp add: bothEntry_def normalizePuzzle_def Let_def some_invalid_def nth_opt_def string_defs)

theorem normalizePuzzle_legacy_fallback_witness:
  "\<exists>p. normalizePuzzle partialEntry = Some p \<and> date p = ''2024-01-01''
     \<and> targetWords p = [''PLANTS'', ''PLANT'', ''PLAT'', ''PAT'']
     \<and> map length (targetWords p) = TARGET_LENGTHS
     \<and> list_all matches_upper_word (targetWords p)"
  using normalizePuzzle_legacy_fallback [of partialEntry "''2024-01-01''"
      "[JStr ''PLANETS'', JStr ''PLANTS'', JStr ''PLANT'', JStr ''PLAT'', JStr ''PAT'']"
      "[''PLANTS'', ''PLANT'', ''PLAT'', ''PAT'']" "JObj [(''six'', JStr ''PLANET'')]"
      "[''PLANET'', [], [], []]"]
  by (simp add: partialEntry_def some_invalid_def nth_opt_def string_defs)

subsection \<open>loadStoredState: falling back to the empty state\<close>

lemma createEmptyState_fields:
  "createEmptyState = \<lparr>guesses = [], attemptsByStep = [[], [], [], []], totalAttempts = 0, lockedOut = False\<rparr>"
  by (simp add: createEmptyState_def createEmptyAttemptsByStep_def TARGET_LENGTHS_def)

lemma restoreParsed_not_object:
  "\<forall>kvs. parsed \<noteq> JObj kvs \<Longrightarrow> restoreParsed d p parsed = Inr createEmptyState"
  by (cases parsed) (simp_all add: restoreParsed_def)

text \<open>
  Claim C6. \<^verbatim>\<open>loadStoredState\<close> returns the empty initial state (no solved guesses,
  four empty attempt lists, no attempts used, not locked out) when nothing is stored, when
  the stored text does not parse, when the stored date differs from the active date, when
  the stored start word differs from the puzzle's, when the parsed value is not an object
  or has no array of guesses, and when anything throws inside the \<^verbatim>\<open>try\<close> block. The
  function is total: no failure leaves it.
\<close>

theorem loadStoredState_falls_back_to_empty:
  "createEmptyState
     = \<lparr>guesses = [], attemptsByStep = [[], [], [], []], totalAttempts = 0, lockedOut = False\<rparr>
   \<and> loadStoredState d p NoItem = createEmptyState
   \<and> loadStoredState d p Unparsable = createEmptyState
   \<and> (get_prop parsed ''date'' \<noteq> Some (JStr d) \<longrightarrow> loadStoredState d p (Parsed parsed) = createEmptyState)
   \<and> (get_prop parsed ''startWord'' \<noteq> Some (JStr (startWord p))
        \<longrightarrow> loadStoredState d p (Parsed parsed) = createEmptyState)
   \<and> ((\<forall>kvs. parsed \<noteq> JObj kvs) \<longrightarrow> loadStoredState d p (Parsed parsed) = createEmptyState)
   \<and> (\<not> isArray (get_prop parsed ''guesses'') \<longrightarrow> loadStoredState d p (Parsed parsed) = createEmptyState)
   \<and> (\<forall>e. restoreParsed d p parsed = Inl e \<longrightarrow> loadStoredState d p (Parsed parsed) = createEmptyState)"
proof (intro conjI impI allI)
  show "createEmptyState
     = \<lparr>guesses = [], attemptsByStep = [[], [], [], []], totalAttempts = 0, lockedOut = False\<rparr>"
    by (rule createEmptyState_fields)
  show "loadStoredState d p NoItem = createEmptyState" by (simp add: loadStoredState_def)
  show "loadStoredState d p Unparsable = createEmptyState" by (simp add: loadStoredState_def)
next
  assume "get_prop parsed ''date'' \<noteq> Some (JStr d)"
  then show "loadStoredState d p (Parsed parsed) = createEmptyState"
    by (simp add: loadStoredState_def restoreParsed_def)
next
  assume "get_prop parsed ''startWord'' \<noteq> Some (JStr (startWord p))"
  then show "loadStoredState d p (Parsed parsed) = createEmptyState"
    by (simp add: loadStoredState_def restoreParsed_def)
next
  assume "\<forall>kvs. parsed \<noteq> JObj kvs"
  then show "loadStoredState d p (Parsed parsed) = createEmptyState"
    by (simp add: loadStoredState_def restoreParsed_not_object)
next
  assume "\<not> isArray (get_prop parsed ''guesses'')"
  then show "loadStoredState d p (Parsed parsed) = createEmptyState"
    by (simp add: loadStoredState_def restoreParsed_def)
next
  fix e assume "restoreParsed d p parsed = Inl e"
  then show "loadStoredState d p (Parsed parsed) = createEmptyState"
    by (simp add: loadStoredState_def)
qed

lemma restoreParsed_throws:
  "restoreParsed ''2024-01-01'' noTargetsPuzzle throwingRecord = Inl TypeError"
  by (simp add: restoreParsed_def rebuildAttempts_def throwingRecord_def noTargetsPuzzle_def Let_def nth_opt_def
      TARGET_LENGTHS_def MAX_RETRIES_def upt_conv_Cons createEmptyAttemptsByStep_def string_defs)

theorem loadStoredState_falls_back_to_empty_witness:
  "get_prop otherDayRecord ''date'' \<noteq> Some (JStr ''2024-01-01'')
   \<and> loadStoredState ''2024-01-01'' planetsPuzzle (Parsed otherDayRecord) = createEmptyState
   \<and> get_prop otherWordRecord ''startWord'' \<noteq> Some (JStr (startWord planetsPuzzle))
   \<and> loadStoredState ''2024-01-01'' planetsPuzzle (Parsed otherWordRecord) = createEmptyState
   \<and> (\<forall>kvs. JArr [] \<noteq> JObj kvs)
   \<and> loadStoredState ''2024-01-01'' planetsPuzzle (Parsed (JArr [])) = createEmptyState
   \<and> \<not> isArray (get_prop noGuessesRecord ''guesses'')
   \<and> loadStoredState ''2024-01-01'' planetsPuzzle (Parsed noGuessesRecord) = createEmptyState
   \<and> restoreParsed ''2024-01-01'' noTargetsPuzzle throwingRecord = Inl TypeError
   \<and> loadStoredState ''2024-01-01'' noTargetsPuzzle (Parsed throwingRecord) = createEmptyState"
proof -
  have 1: "get_prop otherDayRecord ''date'' \<noteq> Some (JStr ''2024-01-01'')"
    by (simp add: otherDayRecord_def)
  have 2: "get_prop otherWordRecord ''startWord'' \<noteq> Some (JStr (startWord planetsPuzzle))"
    by (simp add: otherWordRecord_def planetsPuzzle_def)
  have 3: "\<forall>kvs. JArr [] \<noteq> JObj kvs" by simp
  note 4 = restoreParsed_throws
  have 5: "\<not> isArray (get_prop noGuessesRecord ''guesses'')"
    by (simp add: noGuessesRecord_def)
  show ?thesis
    using 1 2 3 4 5
      loadStoredState_falls_back_to_empty [of "''2024-01-01''" planetsPuzzle noGuessesRecord]
      loadStoredState_falls_back_to_empty [of "''2024-01-01''" planetsPuzzle otherDayRecord]
      loadStoredState_falls_back_to_empty [of "''2024-01-01''" planetsPuzzle otherWordRecord]
      loadStoredState_falls_back_to_empty [of "''2024-01-01''" planetsPuzzle "JArr []"]
      loadStoredState_falls_back_to_empty [of "''2024-01-01''" noTargetsPuzzle throwingRecord]
    by blast
qed

subsection \<open>submitGuess\<close>

lemma wf_puzzleE:
  assumes "wf_puzzle p"
  obtains t0 t1 t2 t3 where "targetWords p = [t0, t1, t2, t3]"
    "matches_upper_word t0" "length t0 = 6" "matches_upper_word t1" "length t1 = 5"
    "matches_upper_word t2" "length t2 = 4" "matches_upper_word t3" "length t3 = 3"
  using assms by (auto simp: wf_puzzle_def TARGET_LENGTHS_def list_all2_Cons2)

lemma typed_upper: "matches_upper_word w \<Longrightarrow> toUpperCase (trim w) = w"
  by (simp add: matches_upper_word_def trim_upper toUpperCase_upper)

text \<open>
  Claim C7. From the empty state of a well-formed puzzle, submitting the four target words
  in order is accepted each time: the submission at stage \<open>i\<close> finds the puzzle not
  complete, the current step equal to \<open>i\<close>, and leads to the state with \<open>i + 1\<close> solved
  guesses, an empty input buffer and no toast. After the fourth the puzzle is complete, the
  solved guesses are exactly the four target words, the four attempt lists are empty, no
  attempt is used and the session is not locked out.
\<close>

theorem four_correct_guesses:
  assumes "wf_puzzle p"
  shows "(\<forall>i<4. \<not> isComplete (Some p) (createEmptyState\<lparr>guesses := take i (targetWords p)\<rparr>)
            \<and> currentStep (createEmptyState\<lparr>guesses := take i (targetWords p)\<rparr>) = i
            \<and> submitGuess (Some p) (createEmptyState\<lparr>guesses := take i (targetWords p)\<rparr>, targetWords p ! i)
                = Inr ((createEmptyState\<lparr>guesses := take (Suc i) (targetWords p)\<rparr>, []), None))
    \<and> createEmptyState\<lparr>guesses := take 0 (targetWords p)\<rparr> = createEmptyState
    \<and> createEmptyState\<lparr>guesses := take 4 (targetWords p)\<rparr>
        = \<lparr>guesses = targetWords p, attemptsByStep = [[], [], [], []], totalAttempts = 0, lockedOut = False\<rparr>
    \<and> isComplete (Some p) (createEmptyState\<lparr>guesses := take 4 (targetWords p)\<rparr>)"
proof -
  obtain t0 t1 t2 t3 where t: "targetWords p = [t0, t1, t2, t3]"
    and u: "matches_upper_word t0" "length t0 = 6" "matches_upper_word t1" "length t1 = 5"
      "matches_upper_word t2" "length t2 = 4" "matches_upper_word t3" "length t3 = 3"
    using assms by (rule wf_puzzleE)
  have step: "\<not> isComplete (Some p) (createEmptyState\<lparr>guesses := take i (targetWords p)\<rparr>)
            \<and> currentStep (createEmptyState\<lparr>guesses := take i (targetWords p)\<rparr>) = i
            \<and> submitGuess (Some p) (createEmptyState\<lparr>guesses := take i (targetWords p)\<rparr>, targetWords p ! i)
                = Inr ((createEmptyState\<lparr>guesses := take (Suc i) (targetWords p)\<rparr>, []), None)"
    if "i < 4" for i
  proof -
    from that consider "i = 0" | "i = 1" | "i = 2" | "i = 3" by linarith
    then show ?thesis
    proof cases
      case 1
      then show ?thesis using u
        by (simp add: t submitGuess_def isComplete_def currentStep_def expectedLength_def
            targetWord_def TARGET_LENGTHS_def createEmptyState_def typed_upper nth_opt_def)
    next
      case 2
      then show ?thesis using u
        by (simp add: t submitGuess_def isComplete_def currentStep_def expectedLength_def
            targetWord_def TARGET_LENGTHS_def createEmptyState_def typed_upper nth_opt_def)
    next
      case 3
      then show ?thesis using u
        by (simp add: t submitGuess_def isComplete_def currentStep_def expectedLength_def
            targetWord_def TARGET_LENGTHS_def createEmptyState_def typed_upper nth_opt_def
            eval_nat_numeral)
    next
      case 4
      then show ?thesis using u
        by (simp add: t submitGuess_def isComplete_def currentStep_def expectedLength_def
            targetWord_def TARGET_LENGTHS_def createEmptyState_def typed_upper nth_opt_def
            eval_nat_numeral)
    qed
  qed
  have fin: "createEmptyState\<lparr>guesses := take 4 (targetWords p)\<rparr>
        = \<lparr>guesses = targetWords p, attemptsByStep = [[], [], [], []], totalAttempts = 0, lockedOut = False\<rparr>"
    by (simp add: t createEmptyState_fields)
  have comp: "isComplete (Some p) (createEmptyState\<lparr>guesses := take 4 (targetWords p)\<rparr>)"
    by (simp add: t isComplete_def currentStep_def TARGET_LENGTHS_def)
  have zero: "createEmptyState\<lparr>guesses := take 0 (targetWords p)\<rparr> = createEmptyState"
    by (simp add: createEmptyState_def)
  show ?thesis using step fin comp zero by blast
qed

theorem four_correct_guesses_witness:
  "wf_puzzle planetsPuzzle
   \<and> submitGuess (Some planetsPuzzle) (createEmptyState, ''PLANET'')
       = Inr ((createEmptyState\<lparr>guesses := [''PLANET'']\<rparr>, []), None)
   \<and> submitGuess (Some planetsPuzzle) (createEmptyState\<lparr>guesses := [''PLANET'']\<rparr>, ''PLANE'')
       = Inr ((createEmptyState\<lparr>guesses := [''PLANET'', ''PLANE'']\<rparr>, []), None)
   \<and> submitGuess (Some planetsPuzzle) (createEmptyState\<lparr>guesses := [''PLANET'', ''PLANE'']\<rparr>, ''PLAN'')
       = Inr ((createEmptyState\<lparr>guesses := [''PLANET'', ''PLANE'', ''PLAN'']\<rparr>, []), None)
   \<and> submitGuess (Some planetsPuzzle) (createEmptyState\<lparr>guesses := [''PLANET'', ''PLANE'', ''PLAN'']\<rparr>, ''PAN'')
       = Inr ((createEmptyState\<lparr>guesses := [''PLANET'', ''PLANE'', ''PLAN'', ''PAN'']\<rparr>, []), None)
   \<and> isComplete (Some planetsPuzzle) (createEmptyState\<lparr>guesses := [''PLANET'', ''PLANE'', ''PLAN'', ''PAN'']\<rparr>)"
proof -
  have wf: "wf_puzzle planetsPuzzle" by (rule wf_planetsPuzzle)
  have t: "targetWords planetsPuzzle = [''PLANET'', ''PLANE'', ''PLAN'', ''PAN'']" by (simp add: planetsPuzzle_def)
  have e: "createEmptyState\<lparr>guesses := []\<rparr> = createEmptyState"
    by (simp add: createEmptyState_def)
  have i: "(0::nat) < 4" "(1::nat) < 4" "(2::nat) < 4" "(3::nat) < 4" by simp_all
  from four_correct_guesses [OF wf]
  have all: "\<forall>i<4. submitGuess (Some planetsPuzzle) (createEmptyState\<lparr>guesses := take i (targetWords planetsPuzzle)\<rparr>, targetWords planetsPuzzle ! i)
                = Inr ((createEmptyState\<lparr>guesses := take (Suc i) (targetWords planetsPuzzle)\<rparr>, []), None)"
    and fin: "isComplete (Some planetsPuzzle) (createEmptyState\<lparr>guesses := take 4 (targetWords planetsPuzzle)\<rparr>)"
    by blast+
  show ?thesis
    using wf all [rule_format, OF i(1)] all [rule_format, OF i(2)] all [rule_format, OF i(3)]
      all [rule_format, OF i(4)] fin
    by (simp add: t e eval_nat_numeral)
qed

text \<open>
  Claim C2. In any session that is neither solved nor locked out, whatever its attempt
  lists hold, a wrong guess of the expected length that brings the attempts used to
  \<^verbatim>\<open>MAX_RETRIES\<close> is accepted, locks the session out and shows the locked-out toast; from
  then on every submission is answered by the same toast and changes nothing; the score in
  the toast is the length of the last solved word, or 7 when nothing is solved.
\<close>

theorem third_wrong_guess_locks_out:
  assumes active: "\<not> isComplete (Some p) s" "\<not> lockedOut s"
    and shape: "length (targetWords p) = length TARGET_LENGTHS"
      "length (attemptsByStep s) = length TARGET_LENGTHS"
    and wrong: "g = toUpperCase (trim inputValue)" "length g = expectedLength (Some p) s"
      "Some g \<noteq> targetWord (Some p) s"
    and third: "min MAX_RETRIES (totalAttempts s + 1) = MAX_RETRIES"
  shows "\<exists>s'. submitGuess (Some p) (s, inputValue)
              = Inr ((s', []), Some (LockedUntilTomorrow (finalScoreLength s)))
           \<and> lockedOut s' \<and> totalAttempts s' = MAX_RETRIES \<and> guesses s' = guesses s
           \<and> finalScoreLength s = (if guesses s = [] then 7 else length (last (guesses s)))
           \<and> (\<forall>later. submitGuess (Some p) (s', later)
                  = Inr ((s', later), Some (LockedUntilTomorrow (finalScoreLength s))))"
proof -
  have step: "currentStep s < length TARGET_LENGTHS"
    using active(1) by (simp add: isComplete_def)
  then obtain t where t: "targetWord (Some p) s = Some t"
    using active(1) shape(1) by (simp add: targetWord_def nth_opt_def)
  let ?next = "(attemptsByStep s)[currentStep s := attemptsByStep s ! currentStep s
      @ [\<lparr>guess = g, feedback = buildFeedback g t\<rparr>]]"
  let ?s' = "s\<lparr>totalAttempts := MAX_RETRIES, attemptsByStep := ?next, lockedOut := True\<rparr>"
  have rec: "recordAttempt (attemptsByStep s) (currentStep s) g (targetWord (Some p) s) = Inr ?next"
    using step shape(2) by (simp add: recordAttempt_def t)
  have sub: "submitGuess (Some p) (s, inputValue)
      = Inr ((?s', []), Some (LockedUntilTomorrow (finalScoreLength s)))"
    using active wrong(2,3) third rec
    by (simp add: submitGuess_def Let_def wrong(1) [symmetric])
  have comp: "\<not> isComplete (Some p) ?s'"
    using active(1) by (simp add: isComplete_def currentStep_def)
  have fs: "finalScoreLength ?s' = finalScoreLength s"
    by (simp add: finalScoreLength_def)
  have later: "submitGuess (Some p) (?s', later)
      = Inr ((?s', later), Some (LockedUntilTomorrow (finalScoreLength s)))" for later
    using comp fs by (simp add: submitGuess_def)
  have score: "finalScoreLength s = (if guesses s = [] then 7 else length (last (guesses s)))"
    by (simp add: finalScoreLength_def)
  show ?thesis
    using sub later score by (intro exI [of _ ?s']) simp
qed

theorem third_wrong_guess_locks_out_witness:
  "\<exists>s'. submitGuess (Some planetsPuzzle) (twoWrongState, ''PLANK'')
              = Inr ((s', []), Some (LockedUntilTomorrow 6))
           \<and> lockedOut s' \<and> totalAttempts s' = 3 \<and> guesses s' = [''PLANET'']
           \<and> (\<forall>later. submitGuess (Some planetsPuzzle) (s', later)
                  = Inr ((s', later), Some (LockedUntilTomorrow 6)))"
proof -
  have h: "\<not> isComplete (Some planetsPuzzle) twoWrongState" "\<not> lockedOut twoWrongState"
    "length (targetWords planetsPuzzle) = length TARGET_LENGTHS"
    "length (attemptsByStep twoWrongState) = length TARGET_LENGTHS"
    "''PLANK'' = toUpperCase (trim ''PLANK'')"
    "length ''PLANK'' = expectedLength (Some planetsPuzzle) twoWrongState"
    "Some ''PLANK'' \<noteq> targetWord (Some planetsPuzzle) twoWrongState"
    "min MAX_RETRIES (totalAttempts twoWrongState + 1) = MAX_RETRIES"
    by (simp_all add: twoWrongState_def planetsPuzzle_def isComplete_def currentStep_def
        TARGET_LENGTHS_def expectedLength_def targetWord_def nth_opt_def MAX_RETRIES_def string_defs)
  have fs: "finalScoreLength twoWrongState = 6" "guesses twoWrongState = [''PLANET'']"
    by (simp_all add: finalScoreLength_def twoWrongState_def)
  show ?thesis
    using third_wrong_guess_locks_out [OF h] by (simp add: fs MAX_RETRIES_def)
qed

subsection \<open>Rebuilding the attempts from storage\<close>

lemma attempts_count_push:
  "step < length rows \<Longrightarrow> attempts_count (rows[step := rows ! step @ new]) = attempts_count rows + int (length new)"
proof (induction rows arbitrary: step)
  case Nil
  then show ?case by simp
next
  case (Cons r rows)
  then show ?case by (cases step) (auto simp: attempts_count_def)
qed

lemma TARGET_LENGTHS_nth_pos: "step < length TARGET_LENGTHS \<Longrightarrow> TARGET_LENGTHS ! step \<noteq> 0"
  by (auto simp: TARGET_LENGTHS_def nth_Cons split: nat.splits)

lemma attemptsLoop_rows:
  assumes "attemptsLoop tw step raws (rows, used) = Inr r" "step < length rows"
    "step < length TARGET_LENGTHS"
  shows "\<exists>new. exit_state r = (rows[step := rows ! step @ new], used + int (length new))
           \<and> (\<forall>a \<in> set new. valid_attempt (TARGET_LENGTHS ! step) tw a)
           \<and> (used \<le> MAX_RETRIES \<longrightarrow> used + int (length new) \<le> MAX_RETRIES)"
  using assms
proof (induction raws arbitrary: rows used)
  case Nil
  then show ?case by (auto intro: exI [of _ "[]"])
next
  case (Cons raw raws)
  let ?w = "normalizeWord (Some raw) (TARGET_LENGTHS ! step)"
  show ?case
  proof (cases "used \<ge> MAX_RETRIES")
    case True
    with Cons.prems show ?thesis by (auto intro: exI [of _ "[]"])
  next
    case False
    show ?thesis
    proof (cases "?w = [] \<or> Some ?w = tw")
      case True
      with False Cons.prems have "attemptsLoop tw step raws (rows, used) = Inr r"
        by (simp add: Let_def)
      from Cons.IH [OF this Cons.prems(2,3)] show ?thesis .
    next
      case skip: False
      with False Cons.prems obtain t where t: "tw = Some t"
        by (cases tw) (auto simp: Let_def)
      let ?a = "\<lparr>guess = ?w, feedback = buildFeedback ?w t\<rparr>"
      let ?rows = "rows[step := rows ! step @ [?a]]"
      have run: "attemptsLoop tw step raws (?rows, used + 1) = Inr r"
        using False skip Cons.prems(1) by (simp add: Let_def t)
      have len: "step < length ?rows" using Cons.prems(2) by simp
      from Cons.IH [OF run len Cons.prems(3)] obtain new where
        new: "exit_state r = (?rows[step := ?rows ! step @ new], used + 1 + int (length new))"
          "\<forall>a \<in> set new. valid_attempt (TARGET_LENGTHS ! step) tw a"
          "used + 1 \<le> MAX_RETRIES \<longrightarrow> used + 1 + int (length new) \<le> MAX_RETRIES"
        by blast
      have va: "valid_attempt (TARGET_LENGTHS ! step) tw ?a"
        using skip normalizeWord_valid [of "Some raw" "TARGET_LENGTHS ! step"]
          TARGET_LENGTHS_nth_pos [OF Cons.prems(3)]
        by (auto simp: valid_attempt_def t)
      have "exit_state r = (rows[step := rows ! step @ (?a # new)], used + int (length (?a # new)))"
        using new(1) Cons.prems(2) by simp
      moreover have "\<forall>a \<in> set (?a # new). valid_attempt (TARGET_LENGTHS ! step) tw a"
        using new(2) va by simp
      moreover have "used \<le> MAX_RETRIES \<longrightarrow> used + int (length (?a # new)) \<le> MAX_RETRIES"
        using new(3) False by simp
      ultimately show ?thesis by blast
    qed
  qed
qed

lemma attempts_ok_push:
  assumes "attempts_ok p rows" "step < length TARGET_LENGTHS"
    "\<forall>a \<in> set new. valid_attempt (TARGET_LENGTHS ! step) (nth_opt (targetWords p) step) a"
  shows "attempts_ok p (rows[step := rows ! step @ new])"
  using assms by (auto simp: attempts_ok_def nth_list_update)

lemma rebuilt_ok_start: "rebuilt_ok p (createEmptyAttemptsByStep, 0)"
  by (simp add: rebuilt_ok_def attempts_ok_def createEmptyAttemptsByStep_def attempts_count_def
      MAX_RETRIES_def TARGET_LENGTHS_def nth_Cons split: nat.splits)

lemma attemptsLoop_preserves:
  assumes ok: "rebuilt_ok p st" and step: "step < length TARGET_LENGTHS"
    and run: "attemptsLoop (nth_opt (targetWords p) step) step raws st = Inr r"
  shows "rebuilt_ok p (exit_state r)"
proof -
  obtain rows used where st: "st = (rows, used)" by (cases st)
  have rows: "attempts_ok p rows" "used = attempts_count rows" "used \<le> MAX_RETRIES"
    using ok by (simp_all add: st rebuilt_ok_def)
  have len: "step < length rows" using rows(1) step by (simp add: attempts_ok_def)
  from attemptsLoop_rows [OF run [unfolded st] len step] obtain new where
    new: "exit_state r = (rows[step := rows ! step @ new], used + int (length new))"
      "\<forall>a \<in> set new. valid_attempt (TARGET_LENGTHS ! step) (nth_opt (targetWords p) step) a"
      "used + int (length new) \<le> MAX_RETRIES"
    using rows(3) by blast
  show ?thesis
    using attempts_ok_push [OF rows(1) step new(2)] new(3) rows(2)
    by (simp add: new(1) rebuilt_ok_def attempts_count_push [OF len])
qed

lemma stepsLoop_preserves:
  assumes "rebuilt_ok p st" "\<forall>s \<in> set steps. s < length TARGET_LENGTHS"
    "stepsLoop p rows steps st = Inr st'"
  shows "rebuilt_ok p st'"
  using assms
proof (induction steps arbitrary: st)
  case Nil
  then show ?case by simp
next
  case (Cons step steps)
  show ?case
  proof (cases "\<exists>raws. array_index rows step = Some (JArr raws)")
    case False
    then have "stepsLoop p rows (step # steps) st = stepsLoop p rows steps st"
      by (auto split: option.splits json.splits)
    with Cons show ?thesis by simp
  next
    case True
    then obtain raws where raws: "array_index rows step = Some (JArr raws)" by blast
    show ?thesis
    proof (cases "attemptsLoop (nth_opt (targetWords p) step) step raws st")
      case (Inl e)
      with Cons.prems(3) raws show ?thesis by simp
    next
      case (Inr r)
      have ok: "rebuilt_ok p (exit_state r)"
        using attemptsLoop_preserves [OF Cons.prems(1) _ Inr] Cons.prems(2) by simp
      show ?thesis
      proof (cases r)
        case (Completed st1)
        with Inr raws Cons.prems(3) have "stepsLoop p rows steps st1 = Inr st'" by simp
        moreover have "rebuilt_ok p st1" using ok Completed by simp
        ultimately show ?thesis using Cons.IH Cons.prems(2) by simp
      next
        case (Broke st1)
        with Inr raws Cons.prems(3) have "st' = st1" by simp
        then show ?thesis using ok Broke by simp
      qed
    qed
  qed
qed

lemma attemptsLoop_no_throw:
  "tw \<noteq> None \<Longrightarrow> attemptsLoop tw step raws st \<noteq> Inl e"
proof (induction raws arbitrary: st)
  case Nil
  then show ?case by simp
next
  case (Cons raw raws)
  then show ?case by (cases st) (auto simp: Let_def)
qed

lemma stepsLoop_no_throw:
  "\<forall>s \<in> set steps. s < length (targetWords p) \<Longrightarrow> stepsLoop p rows steps st \<noteq> Inl e"
proof (induction steps arbitrary: st)
  case Nil
  then show ?case by simp
next
  case (Cons step steps)
  then have tw: "nth_opt (targetWords p) step \<noteq> None" by (simp add: nth_opt_def)
  show ?case
    using Cons attemptsLoop_no_throw [OF tw]
    by (auto split: option.splits json.splits sum.splits loop_exit.splits)
qed

subsection \<open>What loadStoredState returns\<close>

lemma restoreParsed_rejected:
  "\<not> accepted d p parsed \<Longrightarrow> restoreParsed d p parsed = Inr createEmptyState"
  by (auto simp: accepted_def restoreParsed_def)

lemma restoreParsed_accepted:
  "accepted d p parsed \<Longrightarrow> restoreParsed d p parsed =
     (case rebuildAttempts p parsed of
        Inl e \<Rightarrow> Inl e
      | Inr (rows, counted) \<Rightarrow> Inr (restoredSession p parsed rows counted))"
  by (auto simp: accepted_def restoreParsed_def restoredSession_def Let_def not_le
      split: sum.splits prod.splits)

lemma rebuildAttempts_ok:
  assumes "rebuildAttempts p parsed = Inr st"
  shows "rebuilt_ok p st"
proof (cases "isArray (get_prop parsed ''attemptsByStep'')")
  case True
  with assms have "stepsLoop p (get_prop parsed ''attemptsByStep'') [0..<length TARGET_LENGTHS]
      (createEmptyAttemptsByStep, 0) = Inr st"
    by (simp add: rebuildAttempts_def Let_def)
  then show ?thesis
    by (rule stepsLoop_preserves [OF rebuilt_ok_start, rotated]) simp
next
  case False
  show ?thesis
  proof (cases "\<exists>attempts activeStep. get_prop parsed ''attempts'' = Some (JArr attempts)
        \<and> integer_of (get_prop parsed ''activeStep'') = Some activeStep
        \<and> activeStep \<ge> 0 \<and> activeStep < int (length TARGET_LENGTHS)")
    case True
    then obtain attempts activeStep where
      leg: "get_prop parsed ''attempts'' = Some (JArr attempts)"
        "integer_of (get_prop parsed ''activeStep'') = Some activeStep"
        "activeStep \<ge> 0" "activeStep < int (length TARGET_LENGTHS)"
      by blast
    then have step: "nat activeStep < length TARGET_LENGTHS" by simp
    from assms False leg obtain r where
      r: "attemptsLoop (nth_opt (targetWords p) (nat activeStep)) (nat activeStep) attempts
            (createEmptyAttemptsByStep, 0) = Inr r" "exit_state r = st"
      by (auto simp: rebuildAttempts_def Let_def split: sum.splits loop_exit.splits)
    show ?thesis
      using attemptsLoop_preserves [OF rebuilt_ok_start step r(1)] r(2) by simp
  next
    case none: False
    with assms False have "st = (createEmptyAttemptsByStep, 0)"
      by (auto simp: rebuildAttempts_def Let_def split: option.splits json.splits if_splits)
    then show ?thesis by (simp add: rebuilt_ok_start)
  qed
qed

lemma rebuildAttempts_no_throw:
  assumes "length TARGET_LENGTHS \<le> length (targetWords p)"
  shows "rebuildAttempts p parsed \<noteq> Inl e"
proof -
  have steps: "\<forall>s \<in> set [0..<length TARGET_LENGTHS]. s < length (targetWords p)"
    using assms by simp
  have tw: "nth_opt (targetWords p) (nat a) \<noteq> None" if "a < int (length TARGET_LENGTHS)" for a
    using that assms by (auto simp: nth_opt_def TARGET_LENGTHS_def)
  show ?thesis
    using stepsLoop_no_throw [OF steps] attemptsLoop_no_throw [OF tw]
    by (auto simp: rebuildAttempts_def Let_def split: option.splits json.splits sum.splits loop_exit.splits)
qed

lemma loadStoredState_cases:
  obtains (empty) "loadStoredState d p item = createEmptyState"
  | (restored) parsed rows counted where "item = Parsed parsed" "accepted d p parsed"
      "rebuildAttempts p parsed = Inr (rows, counted)"
      "loadStoredState d p item = restoredSession p parsed rows counted"
proof (cases item)
  case NoItem
  then show ?thesis using empty by (simp add: loadStoredState_def)
next
  case Unparsable
  then show ?thesis using empty by (simp add: loadStoredState_def)
next
  case (Parsed parsed)
  show ?thesis
  proof (cases "accepted d p parsed")
    case False
    then show ?thesis using empty Parsed
      by (simp add: loadStoredState_def restoreParsed_rejected)
  next
    case True
    show ?thesis
    proof (cases "rebuildAttempts p parsed")
      case (Inl e)
      then show ?thesis using empty Parsed True
        by (simp add: loadStoredState_def restoreParsed_accepted)
    next
      case (Inr st)
      obtain rows counted where st: "st = (rows, counted)" by (cases st)
      show ?thesis
        using restored [of parsed rows counted] Parsed True Inr st
        by (simp add: loadStoredState_def restoreParsed_accepted)
    qed
  qed
qed

lemma guesses_ok_snoc:
  "guesses_ok ws \<Longrightarrow> matches_upper_word w \<Longrightarrow> length w = TARGET_LENGTHS ! length ws
    \<Longrightarrow> guesses_ok (ws @ [w])"
  by (auto simp: guesses_ok_def nth_append less_Suc_eq)

lemma validGuessesLoop_prefix:
  "k \<le> length (targetWords p) \<Longrightarrow> n \<le> length TARGET_LENGTHS
    \<Longrightarrow> guesses_ok (take k (targetWords p)) \<Longrightarrow>
     \<exists>m. m \<le> max k n \<and> m \<le> length (targetWords p)
        \<and> validGuessesLoop p gs [k..<n] (take k (targetWords p)) = take m (targetWords p)
        \<and> guesses_ok (take m (targetWords p))"
proof (induction "n - k" arbitrary: k)
  case 0
  then show ?case by (auto intro: exI [of _ k])
next
  case (Suc d)
  then have kn: "k < n" by simp
  let ?g = "normalizeWord (array_index gs k) (TARGET_LENGTHS ! k)"
  show ?case
  proof (cases "?g = [] \<or> Some ?g \<noteq> nth_opt (targetWords p) k")
    case True
    then have "validGuessesLoop p gs [k..<n] (take k (targetWords p)) = take k (targetWords p)"
      using kn by (auto simp: upt_conv_Cons Let_def)
    then show ?thesis using Suc.prems by (auto intro: exI [of _ k])
  next
    case False
    then have k: "k < length (targetWords p)" and g: "?g = targetWords p ! k"
      by (auto simp: nth_opt_def split: if_splits)
    have pos: "TARGET_LENGTHS ! k \<noteq> 0"
      using kn Suc.prems(2) by (intro TARGET_LENGTHS_nth_pos) simp
    have word: "matches_upper_word (targetWords p ! k)"
      "length (targetWords p ! k) = TARGET_LENGTHS ! k"
      using False normalizeWord_valid [of "array_index gs k" "TARGET_LENGTHS ! k"] pos
      by (auto simp: g)
    have tk: "take (Suc k) (targetWords p) = take k (targetWords p) @ [targetWords p ! k]"
      using k by (rule take_Suc_conv_app_nth)
    have ok: "guesses_ok (take (Suc k) (targetWords p))"
      unfolding tk using Suc.prems(3) word k by (intro guesses_ok_snoc) simp_all
    have "validGuessesLoop p gs [k..<n] (take k (targetWords p))
        = validGuessesLoop p gs [Suc k..<n] (take (Suc k) (targetWords p))"
      using kn False g by (simp add: upt_conv_Cons Let_def tk)
    moreover have "d = n - Suc k" using Suc.hyps(2) by simp
    from Suc.hyps(1) [OF this _ Suc.prems(2) ok] k obtain m where
      "m \<le> max (Suc k) n" "m \<le> length (targetWords p)"
      "validGuessesLoop p gs [Suc k..<n] (take (Suc k) (targetWords p)) = take m (targetWords p)"
      "guesses_ok (take m (targetWords p))"
      by auto
    ultimately show ?thesis using kn by (auto intro: exI [of _ m])
  qed
qed

lemma validGuesses_prefix:
  "\<exists>m. m \<le> length TARGET_LENGTHS \<and> m \<le> length (targetWords p)
      \<and> validGuessesLoop p gs [0..<length TARGET_LENGTHS] [] = take m (targetWords p)
      \<and> guesses_ok (take m (targetWords p))"
  using validGuessesLoop_prefix [of 0 p "length TARGET_LENGTHS" gs] by (simp add: guesses_ok_def)

subsection \<open>Attempts never hold the target\<close>

lemma submitGuess_cases:
  assumes "submitGuess (Some p) (s, inp) = Inr ((s', inp'), t)"
  obtains (rejected) "s' = s" "inp' = inp"
  | (correct) "\<not> isComplete (Some p) s" "\<not> lockedOut s"
      "length (toUpperCase (trim inp)) = expectedLength (Some p) s"
      "targetWord (Some p) s = Some (toUpperCase (trim inp))"
      "s' = s\<lparr>guesses := guesses s @ [toUpperCase (trim inp)]\<rparr>" "inp' = []"
  | (wrong) target where "\<not> isComplete (Some p) s" "\<not> lockedOut s"
      "length (toUpperCase (trim inp)) = expectedLength (Some p) s"
      "targetWord (Some p) s = Some target" "toUpperCase (trim inp) \<noteq> target"
      "currentStep s < length (attemptsByStep s)"
      "s' = s\<lparr>totalAttempts := min MAX_RETRIES (totalAttempts s + 1),
               attemptsByStep := (attemptsByStep s)[currentStep s := attemptsByStep s ! currentStep s
                  @ [\<lparr>guess = toUpperCase (trim inp),
                      feedback = buildFeedback (toUpperCase (trim inp)) target\<rparr>]],
               lockedOut := (min MAX_RETRIES (totalAttempts s + 1) \<ge> MAX_RETRIES)\<rparr>"
      "inp' = []"
proof -
  let ?g = "toUpperCase (trim inp)"
  show ?thesis
  proof (cases "isComplete (Some p) s \<or> lockedOut s \<or> length ?g \<noteq> expectedLength (Some p) s")
    case True
    then have "s' = s" "inp' = inp"
      using assms by (auto simp: submitGuess_def Let_def split: if_splits)
    then show ?thesis by (rule rejected)
  next
    case False
    show ?thesis
    proof (cases "Some ?g = targetWord (Some p) s")
      case True
      then have "s' = s\<lparr>guesses := guesses s @ [?g]\<rparr>" "inp' = []"
        using assms False by (auto simp: submitGuess_def Let_def)
      then show ?thesis using correct False True by simp
    next
      case ne: False
      from assms False ne obtain nxt where
        rec: "recordAttempt (attemptsByStep s) (currentStep s) ?g (targetWord (Some p) s) = Inr nxt"
        by (auto simp: submitGuess_def Let_def split: sum.splits)
      then obtain target where tg: "targetWord (Some p) s = Some target"
        and len: "currentStep s < length (attemptsByStep s)"
        and nx: "nxt = (attemptsByStep s)[currentStep s := attemptsByStep s ! currentStep s
                  @ [\<lparr>guess = ?g, feedback = buildFeedback ?g target\<rparr>]]"
        by (auto simp: recordAttempt_def split: if_splits option.splits)
      have "s' = s\<lparr>totalAttempts := min MAX_RETRIES (totalAttempts s + 1),
               attemptsByStep := nxt,
               lockedOut := (min MAX_RETRIES (totalAttempts s + 1) \<ge> MAX_RETRIES)\<rparr>" "inp' = []"
        using assms False ne rec by (auto simp: submitGuess_def Let_def split: if_splits)
      then show ?thesis using wrong [of target] False ne tg len nx by simp
    qed
  qed
qed

lemma attempts_ok_no_target: "attempts_ok p rows \<Longrightarrow> no_target p rows"
  by (auto simp: attempts_ok_def no_target_def valid_attempt_def split: option.splits)

lemma attempts_ok_empty: "attempts_ok p createEmptyAttemptsByStep"
  using rebuilt_ok_start [of p] by (simp add: rebuilt_ok_def)

lemma loadStoredState_attempts_ok: "attempts_ok p (attemptsByStep (loadStoredState d p item))"
proof (cases rule: loadStoredState_cases [of d p item])
  case empty
  then show ?thesis by (simp add: createEmptyState_def attempts_ok_empty)
next
  case (restored parsed rows counted)
  then show ?thesis
    using rebuildAttempts_ok [OF restored(3)]
    by (simp add: restoredSession_def Let_def rebuilt_ok_def)
qed

lemma produced_no_target: "produced d p s \<Longrightarrow> no_target p (attemptsByStep s)"
proof (induction rule: produced.induct)
  case (restored item)
  show ?case by (rule attempts_ok_no_target) (rule loadStoredState_attempts_ok)
next
  case (guessed s inputValue s' inputValue' t)
  from guessed.hyps(2) show ?case
  proof (cases rule: submitGuess_cases)
    case rejected
    then show ?thesis using guessed.IH by simp
  next
    case correct
    then show ?thesis using guessed.IH by simp
  next
    case (wrong target)
    have tw: "nth_opt (targetWords p) (currentStep s) = Some target"
      using wrong(1,4) by (simp add: targetWord_def)
    show ?thesis
      using guessed.IH wrong(5,6) tw
      by (auto simp: wrong(7) no_target_def nth_list_update)
  qed
qed

text \<open>
  Claim C8. In every session the program produces, by \<^verbatim>\<open>loadStoredState\<close> from any
  storage content or by \<^verbatim>\<open>submitGuess\<close> from a produced session, no attempt recorded
  for a stage has the target word of that stage as its guess: \<^verbatim>\<open>loadStoredState\<close> skips
  a stored word that normalizes to the target, and \<^verbatim>\<open>submitGuess\<close> records an attempt
  only when the guess differs from the target.
\<close>

theorem attempts_never_hold_target:
  assumes "produced d p s" "stage < length (attemptsByStep s)" "a \<in> set (attemptsByStep s ! stage)"
  shows "nth_opt (targetWords p) stage \<noteq> Some (guess a)"
  using produced_no_target [OF assms(1)] assms(2,3) by (simp add: no_target_def)

lemma char_of_eq: "(char_of (n::nat) = c) = (n mod 256 = of_char c)"
  by (simp add: char_of_eq_iff take_bit_eq_mod)

lemma char_of_letters:
  "char_of (65::nat) = CHR ''A''" "char_of (66::nat) = CHR ''B''" "char_of (67::nat) = CHR
  ''C''" "char_of (68::nat) = CHR ''D''" "char_of (69::nat) = CHR ''E''" "char_of
  (70::nat) = CHR ''F''" "char_of (71::nat) = CHR ''G''" "char_of (72::nat) = CHR ''H''"
  "char_of (73::nat) = CHR ''I''" "char_of (74::nat) = CHR ''J''" "char_of (75::nat) = CHR
  ''K''" "char_of (76::nat) = CHR ''L''" "char_of (77::nat) = CHR ''M''" "char_of
  (78::nat) = CHR ''N''" "char_of (79::nat) = CHR ''O''" "char_of (80::nat) = CHR ''P''"
  "char_of (81::nat) = CHR ''Q''" "char_of (82::nat) = CHR ''R''" "char_of (83::nat) = CHR
  ''S''" "char_of (84::nat) = CHR ''T''" "char_of (85::nat) = CHR ''U''" "char_of
  (86::nat) = CHR ''V''" "char_of (87::nat) = CHR ''W''" "char_of (88::nat) = CHR ''X''"
  "char_of (89::nat) = CHR ''Y''" "char_of (90::nat) = CHR ''Z''"
  by (simp_all add: char_of_eq)

lemmas load_defs = char_of_letters loadStoredState_def restoreParsed_def rebuildAttempts_def Let_def nth_opt_def
  TARGET_LENGTHS_def MAX_RETRIES_def upt_conv_Cons createEmptyAttemptsByStep_def
  createEmptyState_def planetsPuzzle_def

lemma load_tampered:
  "loadStoredState ''2024-01-01'' planetsPuzzle (Parsed tamperedRecord) =
     \<lparr>guesses = [''PLANET''],
      attemptsByStep =
        [[\<lparr>guess = ''PLANED'', feedback = buildFeedback ''PLANED'' ''PLANET''\<rparr>],
         [\<lparr>guess = ''PLANT'', feedback = buildFeedback ''PLANT'' ''PLANE''\<rparr>,
          \<lparr>guess = ''PLANS'', feedback = buildFeedback ''PLANS'' ''PLANE''\<rparr>], [], []],
      totalAttempts = 3, lockedOut = True\<rparr>"
  by (simp add: tamperedRecord_def load_defs string_defs)

lemma load_flagged:
  "loadStoredState ''2024-01-01'' planetsPuzzle (Parsed flaggedRecord) =
     \<lparr>guesses = [], attemptsByStep = [[], [], [], []], totalAttempts = 0, lockedOut = True\<rparr>"
  by (simp add: flaggedRecord_def load_defs string_defs)

lemma load_noGuesses:
  "loadStoredState ''2024-01-01'' planetsPuzzle (Parsed noGuessesRecord) =
     \<lparr>guesses = [], attemptsByStep = [[], [], [], []], totalAttempts = 0, lockedOut = False\<rparr>"
  by (simp add: noGuessesRecord_def load_defs string_defs)

theorem attempts_never_hold_target_witness:
  "produced ''2024-01-01'' planetsPuzzle (loadStoredState ''2024-01-01'' planetsPuzzle (Parsed tamperedRecord))
   \<and> attemptsByStep (loadStoredState ''2024-01-01'' planetsPuzzle (Parsed tamperedRecord)) ! 1
       = [\<lparr>guess = ''PLANT'', feedback = buildFeedback ''PLANT'' ''PLANE''\<rparr>,
          \<lparr>guess = ''PLANS'', feedback = buildFeedback ''PLANS'' ''PLANE''\<rparr>]
   \<and> nth_opt (targetWords planetsPuzzle) 1 \<noteq> Some ''PLANS''"
proof -
  let ?s = "loadStoredState ''2024-01-01'' planetsPuzzle (Parsed tamperedRecord)"
  let ?a = "\<lparr>guess = ''PLANS'', feedback = buildFeedback ''PLANS'' ''PLANE''\<rparr>"
  have 1: "produced ''2024-01-01'' planetsPuzzle ?s" by (rule produced.restored)
  have 2: "1 < length (attemptsByStep ?s)" by (simp add: load_tampered)
  have 3: "?a \<in> set (attemptsByStep ?s ! 1)" by (simp add: load_tampered)
  show ?thesis
    using 1 attempts_never_hold_target [OF 1 2 3] by (simp add: load_tampered)
qed

subsection \<open>Lockout\<close>

lemma restored_lock:
  assumes "accepted d p parsed" "restoreParsed d p parsed = Inr s"
  shows "lockedOut s = (length (guesses s) < length TARGET_LENGTHS
      \<and> (truthy (get_prop parsed ''lockedOut'') \<or> truthy (get_prop parsed ''failed'')
          \<or> totalAttempts s = MAX_RETRIES))"
proof -
  from assms obtain rows counted where "s = restoredSession p parsed rows counted"
    by (auto simp: restoreParsed_accepted split: sum.splits)
  then show ?thesis
    by (auto simp: restoredSession_def Let_def split: option.splits)
qed

lemma loaded_lock:
  "lockedOut (loadStoredState d p item)
     = (length (guesses (loadStoredState d p item)) < length TARGET_LENGTHS
        \<and> (totalAttempts (loadStoredState d p item) = MAX_RETRIES \<or> stored_lock_flag d p item))"
proof (cases "\<exists>parsed s. item = Parsed parsed \<and> accepted d p parsed \<and> restoreParsed d p parsed = Inr s")
  case True
  then obtain parsed s where r: "item = Parsed parsed" "accepted d p parsed"
    "restoreParsed d p parsed = Inr s"
    by blast
  have "loadStoredState d p item = s" by (simp add: loadStoredState_def r)
  then show ?thesis
    using restored_lock [OF r(2,3)] by (auto simp: stored_lock_flag_def r)
next
  case False
  then have flag: "\<not> stored_lock_flag d p item"
    by (auto simp: stored_lock_flag_def split: storage.splits sum.splits)
  have "loadStoredState d p item = createEmptyState"
  proof (cases item)
    case (Parsed parsed)
    show ?thesis
    proof (cases "accepted d p parsed")
      case True
      with False Parsed show ?thesis
        by (cases "restoreParsed d p parsed") (simp_all add: loadStoredState_def)
    next
      case False
      then show ?thesis by (simp add: Parsed loadStoredState_def restoreParsed_rejected)
    qed
  qed (simp_all add: loadStoredState_def)
  then show ?thesis using flag by (simp add: createEmptyState_def MAX_RETRIES_def)
qed

text \<open>
  Claim C4, as amended. Take any session the program produces from a storage content, by
  \<^verbatim>\<open>loadStoredState\<close> and then by \<^verbatim>\<open>submitGuess\<close>. Its lockout flag is true exactly
  when fewer than four stages are solved and either the attempts used equal
  \<^verbatim>\<open>MAX_RETRIES\<close> or the storage content it started from holds an accepted record whose
  \<^verbatim>\<open>lockedOut\<close> or \<^verbatim>\<open>failed\<close> field is truthy. So the flag is false whenever all four
  stages are solved, whatever was stored; and for a session that started from anything else
  (nothing stored, a record that is discarded, a record with neither field set) the flag is
  true exactly when the attempts used equal \<^verbatim>\<open>MAX_RETRIES\<close> and fewer than four stages
  are solved.
\<close>

theorem lockedOut_by_origin:
  assumes "produced_from d p item s"
  shows "lockedOut s
      = (length (guesses s) < length TARGET_LENGTHS
         \<and> (totalAttempts s = MAX_RETRIES \<or> stored_lock_flag d p item))
    \<and> (length (guesses s) \<ge> length TARGET_LENGTHS \<longrightarrow> \<not> lockedOut s)
    \<and> (\<not> stored_lock_flag d p item \<longrightarrow>
          lockedOut s = (totalAttempts s = MAX_RETRIES \<and> length (guesses s) < length TARGET_LENGTHS))"
proof -
  have main: "lockedOut s
      = (length (guesses s) < length TARGET_LENGTHS
         \<and> (totalAttempts s = MAX_RETRIES \<or> stored_lock_flag d p item))"
    using assms
  proof (induction rule: produced_from.induct)
    case restored_from
    show ?case by (rule loaded_lock)
  next
    case (guessed_from s inputValue s' inputValue' t)
    from guessed_from.hyps(2) show ?case
    proof (cases rule: submitGuess_cases)
      case rejected
      then show ?thesis using guessed_from.IH by simp
    next
      case correct
      have "length (guesses s) < length TARGET_LENGTHS"
        using correct(1) by (simp add: isComplete_def currentStep_def)
      then show ?thesis using guessed_from.IH correct(2) by (auto simp: correct(5))
    next
      case (wrong target)
      have "length (guesses s) < length TARGET_LENGTHS"
        using wrong(1) by (simp add: isComplete_def currentStep_def)
      then show ?thesis
        using guessed_from.IH wrong(2) by (auto simp: wrong(7) MAX_RETRIES_def)
    qed
  qed
  then show ?thesis by auto
qed

text \<open>
  Claim C4 as stated fails on a stored record with no attempts and a set \<^verbatim>\<open>lockedOut\<close>
  flag: the session restored is locked out with no attempt used.
\<close>

theorem lockedOut_counterexample:
  "lockedOut (loadStoredState ''2024-01-01'' planetsPuzzle (Parsed flaggedRecord))
   \<and> \<not> (totalAttempts (loadStoredState ''2024-01-01'' planetsPuzzle (Parsed flaggedRecord)) = MAX_RETRIES
          \<and> length (guesses (loadStoredState ''2024-01-01'' planetsPuzzle (Parsed flaggedRecord)))
              < length TARGET_LENGTHS)"
  by (simp add: load_flagged MAX_RETRIES_def)

lemma load_solvedFlagged:
  "loadStoredState ''2024-01-01'' planetsPuzzle (Parsed solvedFlaggedRecord) =
     \<lparr>guesses = [''PLANET'', ''PLANE'', ''PLAN'', ''PAN''], attemptsByStep = [[], [], [], []],
      totalAttempts = 3, lockedOut = False\<rparr>"
  by (simp add: solvedFlaggedRecord_def load_defs string_defs)

lemma submit_first_wrong:
  "submitGuess (Some planetsPuzzle) (loadStoredState ''2024-01-01'' planetsPuzzle NoItem, ''PLANED'')
     = Inr ((firstWrongState, []), Some (NotQuite 2))"
  by (simp add: submitGuess_def recordAttempt_def isComplete_def currentStep_def
      expectedLength_def targetWord_def firstWrongState_def load_defs string_defs)

theorem lockedOut_by_origin_witness:
  "produced_from ''2024-01-01'' planetsPuzzle NoItem firstWrongState
   \<and> \<not> stored_lock_flag ''2024-01-01'' planetsPuzzle NoItem
   \<and> lockedOut firstWrongState
       = (totalAttempts firstWrongState = MAX_RETRIES
          \<and> length (guesses firstWrongState) < length TARGET_LENGTHS)
   \<and> produced_from ''2024-01-01'' planetsPuzzle (Parsed flaggedRecord)
        (loadStoredState ''2024-01-01'' planetsPuzzle (Parsed flaggedRecord))
   \<and> stored_lock_flag ''2024-01-01'' planetsPuzzle (Parsed flaggedRecord)
   \<and> lockedOut (loadStoredState ''2024-01-01'' planetsPuzzle (Parsed flaggedRecord))
   \<and> produced_from ''2024-01-01'' planetsPuzzle (Parsed solvedFlaggedRecord)
        (loadStoredState ''2024-01-01'' planetsPuzzle (Parsed solvedFlaggedRecord))
   \<and> length (guesses (loadStoredState ''2024-01-01'' planetsPuzzle (Parsed solvedFlaggedRecord)))
        \<ge> length TARGET_LENGTHS
   \<and> \<not> lockedOut (loadStoredState ''2024-01-01'' planetsPuzzle (Parsed solvedFlaggedRecord))"
proof -
  let ?f = "loadStoredState ''2024-01-01'' planetsPuzzle (Parsed flaggedRecord)"
  let ?v = "loadStoredState ''2024-01-01'' planetsPuzzle (Parsed solvedFlaggedRecord)"
  have 1: "produced_from ''2024-01-01'' planetsPuzzle NoItem firstWrongState"
    using produced_from.restored_from submit_first_wrong by (rule produced_from.guessed_from)
  have 2: "\<not> stored_lock_flag ''2024-01-01'' planetsPuzzle NoItem"
    by (simp add: stored_lock_flag_def)
  have 3: "produced_from ''2024-01-01'' planetsPuzzle (Parsed flaggedRecord) ?f"
    by (rule produced_from.restored_from)
  have 4: "stored_lock_flag ''2024-01-01'' planetsPuzzle (Parsed flaggedRecord)"
    by (simp add: stored_lock_flag_def accepted_def flaggedRecord_def load_defs string_defs)
  have 5: "length (guesses ?f) < length TARGET_LENGTHS"
    by (simp add: load_flagged TARGET_LENGTHS_def)
  have 6: "produced_from ''2024-01-01'' planetsPuzzle (Parsed solvedFlaggedRecord) ?v"
    by (rule produced_from.restored_from)
  have 7: "length (guesses ?v) \<ge> length TARGET_LENGTHS"
    by (simp add: load_solvedFlagged TARGET_LENGTHS_def)
  show ?thesis
    using 1 2 3 4 5 6 7 lockedOut_by_origin [OF 1] lockedOut_by_origin [OF 3]
      lockedOut_by_origin [OF 6]
    by blast
qed

subsection \<open>The reconciled number of attempts\<close>

text \<open>
  Claim C9, as amended. For a puzzle with its four target words and a stored record that
  passes the date and start-word checks, whose \<^verbatim>\<open>guesses\<close> field is an array and whose
  \<^verbatim>\<open>totalAttempts\<close> field is an integer \<open>n\<close>, the restored number of attempts is the
  minimum of \<^verbatim>\<open>MAX_RETRIES\<close> and the maximum of \<open>n\<close> and the number of attempts in the
  restored attempt lists.
\<close>

theorem restored_totalAttempts:
  assumes "get_prop parsed ''date'' = Some (JStr d)"
    and "get_prop parsed ''startWord'' = Some (JStr (startWord p))"
    and "isArray (get_prop parsed ''guesses'')"
    and "integer_of (get_prop parsed ''totalAttempts'') = Some n"
    and "length (targetWords p) = length TARGET_LENGTHS"
  shows "totalAttempts (loadStoredState d p (Parsed parsed))
      = min MAX_RETRIES (max (attempts_count (attemptsByStep (loadStoredState d p (Parsed parsed)))) n)"
proof -
  obtain kvs where "parsed = JObj kvs" using assms(1) get_prop_Some_object by blast
  then have acc: "accepted d p parsed" using assms(1-3) by (simp add: accepted_def)
  obtain rows counted where rb: "rebuildAttempts p parsed = Inr (rows, counted)"
    using rebuildAttempts_no_throw [of p parsed] assms(5)
    by (cases "rebuildAttempts p parsed") auto
  have ok: "counted = attempts_count rows" "counted \<le> MAX_RETRIES"
    using rebuildAttempts_ok [OF rb] by (simp_all add: rebuilt_ok_def)
  have "loadStoredState d p (Parsed parsed) = restoredSession p parsed rows counted"
    using acc rb by (simp add: loadStoredState_def restoreParsed_accepted)
  then show ?thesis
    using ok assms(4) by (simp add: restoredSession_def Let_def)
qed

text \<open>
  Claim C9 as stated fails on a record that passes the date and start-word checks and
  stores 2 attempts but has no array of guesses: the guard on \<^verbatim>\<open>parsed.guesses\<close> discards
  the record and the restored number of attempts is 0.
\<close>

theorem restored_totalAttempts_counterexample:
  "get_prop noGuessesRecord ''date'' = Some (JStr ''2024-01-01'')
   \<and> get_prop noGuessesRecord ''startWord'' = Some (JStr (startWord planetsPuzzle))
   \<and> integer_of (get_prop noGuessesRecord ''totalAttempts'') = Some 2
   \<and> totalAttempts (loadStoredState ''2024-01-01'' planetsPuzzle (Parsed noGuessesRecord))
       \<noteq> min MAX_RETRIES
            (max (attempts_count (attemptsByStep
                    (loadStoredState ''2024-01-01'' planetsPuzzle (Parsed noGuessesRecord)))) 2)"
  by (simp add: load_noGuesses)
    (simp add: noGuessesRecord_def planetsPuzzle_def MAX_RETRIES_def attempts_count_def)

theorem restored_totalAttempts_witness:
  "get_prop tamperedRecord ''date'' = Some (JStr ''2024-01-01'')
   \<and> get_prop tamperedRecord ''startWord'' = Some (JStr (startWord planetsPuzzle))
   \<and> isArray (get_prop tamperedRecord ''guesses'')
   \<and> integer_of (get_prop tamperedRecord ''totalAttempts'') = Some 1
   \<and> length (targetWords planetsPuzzle) = length TARGET_LENGTHS
   \<and> attempts_count (attemptsByStep (loadStoredState ''2024-01-01'' planetsPuzzle (Parsed tamperedRecord))) = 3
   \<and> totalAttempts (loadStoredState ''2024-01-01'' planetsPuzzle (Parsed tamperedRecord))
       = min MAX_RETRIES (max 3 1)"
proof -
  have h: "get_prop tamperedRecord ''date'' = Some (JStr ''2024-01-01'')"
    "get_prop tamperedRecord ''startWord'' = Some (JStr (startWord planetsPuzzle))"
    "isArray (get_prop tamperedRecord ''guesses'')"
    "integer_of (get_prop tamperedRecord ''totalAttempts'') = Some 1"
    "length (targetWords planetsPuzzle) = length TARGET_LENGTHS"
    by (simp_all add: tamperedRecord_def planetsPuzzle_def TARGET_LENGTHS_def)
  have c: "attempts_count (attemptsByStep (loadStoredState ''2024-01-01'' planetsPuzzle (Parsed tamperedRecord))) = 3"
    by (simp add: load_tampered attempts_count_def)
  show ?thesis
    using h c restored_totalAttempts [OF h] by simp
qed

subsection \<open>Invariant of the reachable states\<close>

lemma session_inv_empty: "session_inv p createEmptyState"
  using attempts_ok_empty [of p]
  by (simp add: session_inv_def createEmptyState_def createEmptyAttemptsByStep_def
      attempts_count_def MAX_RETRIES_def TARGET_LENGTHS_def guesses_ok_def)

lemma session_inv_restored:
  assumes "rebuildAttempts p parsed = Inr (rows, counted)"
  shows "session_inv p (restoredSession p parsed rows counted)"
proof -
  obtain m where m: "m \<le> length TARGET_LENGTHS" "m \<le> length (targetWords p)"
    "validGuessesLoop p (get_prop parsed ''guesses'') [0..<length TARGET_LENGTHS] [] = take m (targetWords p)"
    "guesses_ok (take m (targetWords p))"
    using validGuesses_prefix by blast
  have ok: "attempts_ok p rows" "counted = attempts_count rows" "counted \<le> MAX_RETRIES"
    using rebuildAttempts_ok [OF assms] by (simp_all add: rebuilt_ok_def)
  show ?thesis
    using m(1,2,4) ok
    by (auto simp: session_inv_def restoredSession_def Let_def m(3) split: option.splits)
qed

lemma session_inv_loaded: "session_inv p (loadStoredState d p item)"
proof (cases rule: loadStoredState_cases [of d p item])
  case empty
  then show ?thesis by (simp add: session_inv_empty)
next
  case (restored parsed rows counted)
  then show ?thesis by (simp add: session_inv_restored)
qed

lemma session_inv_submitGuess:
  assumes inv: "session_inv p s" and up: "list_all is_upper inp"
    and sub: "submitGuess (Some p) (s, inp) = Inr ((s', inp'), t)"
  shows "session_inv p s' \<and> list_all is_upper inp'"
  using sub
proof (cases rule: submitGuess_cases)
  case rejected
  then show ?thesis using inv up by simp
next
  case correct
  have g: "toUpperCase (trim inp) = inp" using up by (simp add: trim_upper toUpperCase_upper)
  have k: "length (guesses s) < length TARGET_LENGTHS"
    using correct(1) by (simp add: isComplete_def currentStep_def)
  have tw: "nth_opt (targetWords p) (length (guesses s)) = Some inp"
    using correct(1,4) by (simp add: targetWord_def currentStep_def g)
  then have lt: "length (guesses s) < length (targetWords p)"
    and nth: "targetWords p ! length (guesses s) = inp"
    by (auto simp: nth_opt_def split: if_splits)
  have eq: "guesses s @ [inp] = take (Suc (length (guesses s))) (targetWords p)"
    using inv lt nth by (simp add: session_inv_def take_Suc_conv_app_nth)
  have a: "guesses s' = take (Suc (length (guesses s))) (targetWords p)"
    using eq by (simp add: correct(5) g)
  have b: "length (guesses s') = Suc (length (guesses s))"
    by (simp add: correct(5))
  have fields: "attemptsByStep s' = attemptsByStep s" "totalAttempts s' = totalAttempts s"
    "lockedOut s' = lockedOut s"
    by (simp_all add: correct(5))
  have len: "length inp = TARGET_LENGTHS ! length (guesses s)"
    using correct(1,3) by (simp add: expectedLength_def currentStep_def g)
  then have "inp \<noteq> []" using TARGET_LENGTHS_nth_pos [OF k] by auto
  then have "matches_upper_word inp" using up by (simp add: matches_upper_word_def)
  then have "guesses_ok (guesses s @ [inp])"
    using inv len by (intro guesses_ok_snoc) (simp_all add: session_inv_def)
  then have gk: "guesses_ok (take (Suc (length (guesses s))) (targetWords p))"
    by (simp add: eq)
  have "session_inv p s'"
    unfolding session_inv_def fields b
    using inv k a gk correct(2) by (auto simp: session_inv_def)
  then show ?thesis by (simp add: correct(6))
next
  case (wrong target)
  have g: "toUpperCase (trim inp) = inp" using up by (simp add: trim_upper toUpperCase_upper)
  have k: "currentStep s < length TARGET_LENGTHS"
    using wrong(1) by (simp add: isComplete_def)
  have tw: "nth_opt (targetWords p) (currentStep s) = Some target"
    using wrong(1,4) by (simp add: targetWord_def)
  have len: "length inp = TARGET_LENGTHS ! currentStep s"
    using wrong(1,3) by (simp add: expectedLength_def g)
  then have "inp \<noteq> []" using TARGET_LENGTHS_nth_pos [OF k] by auto
  then have va: "valid_attempt (TARGET_LENGTHS ! currentStep s) (nth_opt (targetWords p) (currentStep s))
      \<lparr>guess = inp, feedback = buildFeedback inp target\<rparr>"
    using up len wrong(5) by (simp add: valid_attempt_def tw matches_upper_word_def g)
  have rows: "attempts_ok p (attemptsByStep s)" using inv by (simp add: session_inv_def)
  have ok': "attempts_ok p ((attemptsByStep s)[currentStep s := attemptsByStep s ! currentStep s
      @ [\<lparr>guess = inp, feedback = buildFeedback inp target\<rparr>]])"
    using attempts_ok_push [OF rows k] va by simp
  have lt: "totalAttempts s < MAX_RETRIES"
    using inv wrong(2) k by (auto simp: session_inv_def currentStep_def)
  have cnt: "attempts_count ((attemptsByStep s)[currentStep s := attemptsByStep s ! currentStep s
      @ [\<lparr>guess = inp, feedback = buildFeedback inp target\<rparr>]]) = attempts_count (attemptsByStep s) + 1"
    using attempts_count_push [OF wrong(6)] by simp
  show ?thesis
    using inv ok' lt k [unfolded currentStep_def]
    by (auto simp: wrong(7,8) g session_inv_def cnt)
qed

lemma reachable_inv:
  assumes "reachable d p st"
  shows "session_inv p (fst st) \<and> list_all is_upper (snd st)"
  using assms
proof (induction rule: reachable.induct)
  case (loaded item)
  then show ?case by (simp add: session_inv_loaded)
next
  case (key st k st' t)
  obtain s inp where st: "st = (s, inp)" by (cases st)
  obtain s' inp' where st': "st' = (s', inp')" by (cases st')
  have inv: "session_inv p s" "list_all is_upper inp" using key.IH by (simp_all add: st)
  show ?case
  proof (cases "\<not> isInputLocked (Some p) s \<and> k = ''ENTER''")
    case True
    then have "submitGuess (Some p) (s, inp) = Inr ((s', inp'), t)"
      using key.hyps(2) by (simp add: handleGameKey_def st st')
    from session_inv_submitGuess [OF inv this] show ?thesis by (simp add: st')
  next
    case False
    then have "s' = s" "inp' = inp \<or> inp' = butlast inp \<or> (matches_upper_letter k \<and> inp' = inp @ k)"
      using key.hyps(2) by (auto simp: handleGameKey_def st st' split: if_splits)
    then show ?thesis
      using inv by (auto simp: st' matches_upper_letter_def list_all_iff dest: in_set_butlastD)
  qed
qed

subsection \<open>Saving and loading again\<close>

lemma attemptsLoop_replay:
  assumes "\<forall>a \<in> set row. valid_attempt (TARGET_LENGTHS ! step) tw a"
    "step < length cur" "used + int (length row) \<le> MAX_RETRIES"
  shows "attemptsLoop tw step (map (\<lambda>a. JStr (guess a)) row) (cur, used)
      = Inr (Completed (cur[step := cur ! step @ row], used + int (length row)))"
  using assms
proof (induction row arbitrary: cur used)
  case Nil
  then show ?case by simp
next
  case (Cons a row)
  have "valid_attempt (TARGET_LENGTHS ! step) tw a" using Cons.prems(1) by simp
  then obtain t where t: "tw = Some t"
    by (cases tw) (simp_all add: valid_attempt_def)
  have va: "matches_upper_word (guess a)" "length (guess a) = TARGET_LENGTHS ! step"
    "guess a \<noteq> t" "feedback a = buildFeedback (guess a) t"
    using Cons.prems(1) by (simp_all add: valid_attempt_def t)
  have nw: "normalizeWord (Some (JStr (guess a))) (TARGET_LENGTHS ! step) = guess a"
    using va(1,2) by (rule normalizeWord_fixed)
  have ne: "guess a \<noteq> []" using va(1) by (simp add: matches_upper_word_def)
  have a: "\<lparr>guess = guess a, feedback = buildFeedback (guess a) t\<rparr> = a"
    using va(4) by simp
  have lt: "\<not> used \<ge> MAX_RETRIES" using Cons.prems(3) by simp
  have "attemptsLoop tw step (map (\<lambda>a. JStr (guess a)) (a # row)) (cur, used)
      = attemptsLoop tw step (map (\<lambda>a. JStr (guess a)) row)
          (cur[step := cur ! step @ [a]], used + 1)"
    using lt ne va(3) by (simp add: nw a t Let_def del: normalizeWord.simps)
  also have "\<dots> = Inr (Completed ((cur[step := cur ! step @ [a]])[step := cur[step := cur ! step @ [a]] ! step @ row],
      used + 1 + int (length row)))"
    using Cons.prems by (intro Cons.IH) simp_all
  also have "(cur[step := cur ! step @ [a]])[step := cur[step := cur ! step @ [a]] ! step @ row]
      = cur[step := cur ! step @ a # row]"
    using Cons.prems(2) by simp
  finally show ?case by simp
qed

lemma validGuessesLoop_replay:
  assumes "k \<le> length (targetWords p)" "k \<le> n" "guesses_ok (take k (targetWords p))"
  shows "j \<le> k \<Longrightarrow>
     validGuessesLoop p (Some (JArr (map JStr (take k (targetWords p))))) [j..<n]
       (take j (targetWords p)) = take k (targetWords p)"
proof (induction "k - j" arbitrary: j)
  case 0
  then have j: "j = k" by simp
  show ?case
  proof (cases "k < n")
    case True
    have "array_index (Some (JArr (map JStr (take k (targetWords p))))) k = None"
      using assms(1) by (simp add: nth_opt_def)
    then show ?thesis using True by (simp add: j upt_conv_Cons)
  next
    case False
    then show ?thesis by (simp add: j)
  qed
next
  case (Suc d)
  then have jk: "j < k" by simp
  then have jn: "j < n" and jl: "j < length (targetWords p)" using assms(1,2) by simp_all
  have word: "matches_upper_word (targetWords p ! j)"
    "length (targetWords p ! j) = TARGET_LENGTHS ! j"
    using assms(1,3) jk by (auto simp: guesses_ok_def)
  have ai: "array_index (Some (JArr (map JStr (take k (targetWords p))))) j
      = Some (JStr (targetWords p ! j))"
    using jk assms(1) by (simp add: nth_opt_def)
  have nw: "normalizeWord (Some (JStr (targetWords p ! j))) (TARGET_LENGTHS ! j) = targetWords p ! j"
    using word by (rule normalizeWord_fixed)
  have ne: "targetWords p ! j \<noteq> []" using word(1) by (simp add: matches_upper_word_def)
  have "validGuessesLoop p (Some (JArr (map JStr (take k (targetWords p))))) [j..<n]
        (take j (targetWords p))
      = validGuessesLoop p (Some (JArr (map JStr (take k (targetWords p))))) [Suc j..<n]
        (take (Suc j) (targetWords p))"
    using jn jl ne
    by (simp add: upt_conv_Cons Let_def ai nw nth_opt_def take_Suc_conv_app_nth
        del: normalizeWord.simps array_index.simps)
  moreover have "d = k - Suc j" using Suc.hyps(2) by simp
  ultimately show ?case using Suc.hyps(1) [of "Suc j"] jk by simp
qed

lemma validGuesses_replay:
  assumes "length gs \<le> length TARGET_LENGTHS" "gs = take (length gs) (targetWords p)"
    "guesses_ok gs"
  shows "validGuessesLoop p (Some (JArr (map JStr gs))) [0..<length TARGET_LENGTHS] [] = gs"
proof -
  have k: "length gs \<le> length (targetWords p)"
    using arg_cong [OF assms(2), of length] by simp
  have ok: "guesses_ok (take (length gs) (targetWords p))" using assms(2,3) by simp
  show ?thesis
    using validGuessesLoop_replay [OF k assms(1) ok, of 0] assms(2) by simp
qed

lemma steps_list: "[0..<length TARGET_LENGTHS] = [0, Suc 0, 2, 3]"
  by (simp add: TARGET_LENGTHS_def upt_conv_Cons)

lemma attempts_ok_rowD:
  "attempts_ok p rows \<Longrightarrow> stage < length TARGET_LENGTHS \<Longrightarrow> a \<in> set (rows ! stage)
    \<Longrightarrow> valid_attempt (TARGET_LENGTHS ! stage) (nth_opt (targetWords p) stage) a"
  by (simp add: attempts_ok_def)

lemma stepsLoop_replay:
  assumes ok: "attempts_ok p rows" and le: "attempts_count rows \<le> MAX_RETRIES"
  shows "stepsLoop p (Some (JArr (map (\<lambda>row. JArr (map (\<lambda>a. JStr (guess a)) row)) rows)))
      [0..<length TARGET_LENGTHS] (createEmptyAttemptsByStep, 0) = Inr (rows, attempts_count rows)"
proof -
  let ?tw = "\<lambda>stage. nth_opt (targetWords p) stage"
  have "length rows = 4" using ok by (simp add: attempts_ok_def TARGET_LENGTHS_def)
  then obtain r0 r1 r2 r3 where r: "rows = [r0, r1, r2, r3]"
    by (auto simp: length_Suc_conv eval_nat_numeral)
  have v: "\<forall>a \<in> set r0. valid_attempt (TARGET_LENGTHS ! 0) (?tw 0) a"
    "\<forall>a \<in> set r1. valid_attempt (TARGET_LENGTHS ! Suc 0) (?tw (Suc 0)) a"
    "\<forall>a \<in> set r2. valid_attempt (TARGET_LENGTHS ! 2) (?tw 2) a"
    "\<forall>a \<in> set r3. valid_attempt (TARGET_LENGTHS ! 3) (?tw 3) a"
    using attempts_ok_rowD [OF ok, of 0] attempts_ok_rowD [OF ok, of "Suc 0"]
      attempts_ok_rowD [OF ok, of 2] attempts_ok_rowD [OF ok, of 3]
    by (simp_all add: r TARGET_LENGTHS_def)
  have c: "int (length r0) + int (length r1) + int (length r2) + int (length r3) \<le> MAX_RETRIES"
    using le by (simp add: attempts_count_def r)
  let ?j = "\<lambda>row. map (\<lambda>a. JStr (guess a)) row"
  have s0: "attemptsLoop (?tw 0) 0 (?j r0) ([[], [], [], []], 0)
      = Inr (Completed ([r0, [], [], []], int (length r0)))"
    using attemptsLoop_replay [OF v(1), of "[[], [], [], []]" 0] c by simp
  have s1: "attemptsLoop (?tw (Suc 0)) (Suc 0) (?j r1) ([r0, [], [], []], int (length r0))
      = Inr (Completed ([r0, r1, [], []], int (length r0) + int (length r1)))"
    using attemptsLoop_replay [OF v(2), of "[r0, [], [], []]" "int (length r0)"] c by simp
  have s2: "attemptsLoop (?tw 2) 2 (?j r2) ([r0, r1, [], []], int (length r0) + int (length r1))
      = Inr (Completed ([r0, r1, r2, []], int (length r0) + int (length r1) + int (length r2)))"
    using attemptsLoop_replay [OF v(3), of "[r0, r1, [], []]" "int (length r0) + int (length r1)"] c
    by simp
  have s3: "attemptsLoop (?tw 3) 3 (?j r3)
        ([r0, r1, r2, []], int (length r0) + int (length r1) + int (length r2))
      = Inr (Completed ([r0, r1, r2, r3],
          int (length r0) + int (length r1) + int (length r2) + int (length r3)))"
    using attemptsLoop_replay [OF v(4), of "[r0, r1, r2, []]"
        "int (length r0) + int (length r1) + int (length r2)"] c
    by simp
  have e: "createEmptyAttemptsByStep = [[], [], [], []]"
    by (simp add: createEmptyAttemptsByStep_def TARGET_LENGTHS_def)
  have ai: "nth_opt [x0, x1, x2, x3] 0 = Some x0" "nth_opt [x0, x1, x2, x3] (Suc 0) = Some x1"
    "nth_opt [x0, x1, x2, x3] 2 = Some x2" "nth_opt [x0, x1, x2, x3] 3 = Some x3"
    for x0 x1 x2 x3 :: json
    by (simp_all add: nth_opt_def)
  show ?thesis
    by (simp add: steps_list r e ai s0 s1 s2 s3 attempts_count_def)
qed

lemma roundtrip_of_inv:
  assumes inv: "session_inv p s"
  shows "loadStoredState d p (Parsed (saved d p s)) = s"
proof -
  let ?parsed = "saved d p s"
  have props: "get_prop ?parsed ''date'' = Some (JStr d)"
    "get_prop ?parsed ''startWord'' = Some (JStr (startWord p))"
    "get_prop ?parsed ''guesses'' = Some (JArr (map JStr (guesses s)))"
    "get_prop ?parsed ''attemptsByStep''
       = Some (JArr (map (\<lambda>row. JArr (map (\<lambda>a. JStr (guess a)) row)) (attemptsByStep s)))"
    "get_prop ?parsed ''totalAttempts'' = Some (JInt (totalAttempts s))"
    "get_prop ?parsed ''lockedOut'' = Some (JBool (lockedOut s))"
    "get_prop ?parsed ''failed'' = None"
    by (simp_all add: saved_def)
  have acc: "accepted d p ?parsed"
    by (simp add: accepted_def props) (simp add: saved_def)
  have i: "length (guesses s) \<le> length TARGET_LENGTHS"
    "guesses s = take (length (guesses s)) (targetWords p)"
    "guesses_ok (guesses s)"
    "attempts_ok p (attemptsByStep s)"
    "attempts_count (attemptsByStep s) \<le> totalAttempts s"
    "totalAttempts s \<le> MAX_RETRIES"
    "lockedOut s \<longrightarrow> length (guesses s) < length TARGET_LENGTHS"
    "totalAttempts s = MAX_RETRIES \<and> length (guesses s) < length TARGET_LENGTHS \<longrightarrow> lockedOut s"
    using inv by (simp_all add: session_inv_def)
  have rb: "rebuildAttempts p ?parsed = Inr (attemptsByStep s, attempts_count (attemptsByStep s))"
    using stepsLoop_replay [OF i(4)] i(5,6) by (simp add: rebuildAttempts_def props)
  have vg: "validGuessesLoop p (Some (JArr (map JStr (guesses s)))) [0..<length TARGET_LENGTHS] []
      = guesses s"
    using i(1,2,3) by (rule validGuesses_replay)
  have "restoredSession p ?parsed (attemptsByStep s) (attempts_count (attemptsByStep s)) = s"
    unfolding restoredSession_def Let_def props vg
    using i by (auto simp: min_def max_def)
  then show ?thesis
    using acc rb by (simp add: loadStoredState_def restoreParsed_accepted)
qed

lemma reachable_pressKeys:
  "reachable d p st \<Longrightarrow> pressKeys (Some p) st ks = Inr st' \<Longrightarrow> reachable d p st'"
proof (induction ks arbitrary: st)
  case Nil
  then show ?case by simp
next
  case (Cons k ks)
  from Cons.prems(2) obtain st1 t where
    1: "handleGameKey (Some p) k st = Inr (st1, t)" and 2: "pressKeys (Some p) st1 ks = Inr st'"
    by (auto split: sum.splits)
  from Cons.prems(1) 1 have "reachable d p st1" by (rule reachable.key)
  then show ?case using 2 by (rule Cons.IH)
qed

text \<open>
  Claim C3. Every state the running component reaches for a date and its puzzle (the
  session loaded from any storage content, then any sequence of keys) is unchanged by
  saving it and loading it again for the same date and puzzle: the same solved guesses, the
  same attempts in each stage in the same order, each with the feedback it had, the same
  number of attempts used and the same lockout flag.
\<close>

theorem save_restore_roundtrip:
  assumes "reachable d p (s, inputValue)"
  shows "loadStoredState d p (Parsed (saved d p s)) = s"
  using roundtrip_of_inv reachable_inv [OF assms] by simp

lemma keys_to_oneWrongState:
  "pressKeys (Some planetsPuzzle) (loadStoredState ''2024-01-01'' planetsPuzzle NoItem, [])
     [''P'', ''L'', ''A'', ''N'', ''E'', ''T'', ''ENTER'', ''P'', ''L'', ''A'', ''N'', ''X'',
      ''BACKSPACE'', ''T'', ''ENTER'']
   = Inr (oneWrongState, [])"
  by (simp add: handleGameKey_def submitGuess_def recordAttempt_def isInputLocked_def isComplete_def
      currentStep_def expectedLength_def targetWord_def matches_upper_letter_def oneWrongState_def
      load_defs string_defs)

theorem save_restore_roundtrip_witness:
  "reachable ''2024-01-01'' planetsPuzzle (oneWrongState, [])
   \<and> loadStoredState ''2024-01-01'' planetsPuzzle (Parsed (saved ''2024-01-01'' planetsPuzzle oneWrongState))
       = oneWrongState"
proof -
  have r: "reachable ''2024-01-01'' planetsPuzzle (oneWrongState, [])"
    using reachable.loaded keys_to_oneWrongState by (rule reachable_pressKeys)
  show ?thesis
    using r save_restore_roundtrip [OF r] by simp
qed

end
